theory Spec2Isabelle
  imports Main
begin

section \<open>Level pool generation\<close>

text \<open>
  \<^verbatim>\<open>def generate_seeds(num_seeds=500, base_seed=0):
      return [base_seed + i for i in range(num_seeds)]\<close>
  Python integers are unbounded, so both arguments are \<open>int\<close>; \<open>range(n)\<close> is empty
  for \<open>n \<le> 0\<close>, as \<open>[0..n - 1]\<close> is.
\<close>

definition generate_seeds :: "int \<Rightarrow> int \<Rightarrow> int list" where
  "generate_seeds num_seeds base_seed = map (\<lambda>i. base_seed + i) [0..num_seeds - 1]"

section \<open>The collaborators of the serial pipeline\<close>

text \<open>
  \<open>serial_pipeline_plr\<close> drives objects whose classes live outside the entry module: the
  learner, the collector and its environment manager, the evaluator, the commander and
  the level sampler. Their joint state is one abstract world \<open>'w\<close>; every method the
  pipeline calls is a function on the world that either raises (\<open>Inl\<close> of an exception
  \<open>'e\<close>) or returns a value and the new world. The attributes \<open>learner.train_iter\<close> and
  \<open>collector.envstep\<close> are read without a call.

  Types: \<open>'k\<close> the keyword arguments produced by \<open>commander.step()\<close>, \<open>'d\<close> the data
  returned by \<open>collector.collect\<close>, \<open>'s\<close> the stacked data returned by
  \<open>default_preprocess_learn\<close>, \<open>'t\<close> the tensors. The sampler's result is already the
  integer that \<open>int(...)\<close> yields. \<open>torch.Tensor(seeds)\<close> builds a tensor of 32-bit floats
  from the list of level ids: an id below \<open>2 ^ 24\<close> in magnitude, as those of the pool are,
  is held exactly, a larger one is rounded. Floats are not modelled; the constructor is
  the field \<open>tensor\<close>, a function of the list alone, with no effect on the world.
  The reward returned by \<open>evaluator.eval\<close> is bound and never read, so only the stop flag
  is kept. Of the arguments of the \<open>LevelSampler\<close> constructor the seed pool and the
  number of collector environments are kept.
\<close>

record ('w, 'e, 'k, 'd, 's, 't) collaborators =
  new_level_sampler :: "int list \<Rightarrow> nat \<Rightarrow> 'w \<Rightarrow> 'e + unit \<times> 'w"
  call_hook :: "string \<Rightarrow> 'w \<Rightarrow> 'e + unit \<times> 'w"
  sample :: "string option \<Rightarrow> 'w \<Rightarrow> 'e + int \<times> 'w"
  tensor :: "int list \<Rightarrow> 't"
  env_seed :: "int list \<Rightarrow> 'w \<Rightarrow> 'e + unit \<times> 'w"
  env_reset :: "'w \<Rightarrow> 'e + unit \<times> 'w"
  commander_step :: "'w \<Rightarrow> 'e + 'k \<times> 'w"
  should_eval :: "int \<Rightarrow> 'w \<Rightarrow> 'e + bool \<times> 'w"
  eval :: "int \<Rightarrow> int \<Rightarrow> 'w \<Rightarrow> 'e + bool \<times> 'w"
  collect :: "int \<Rightarrow> 't \<Rightarrow> 'k \<Rightarrow> 'w \<Rightarrow> 'e + 'd \<times> 'w"
  train :: "'d \<Rightarrow> int \<Rightarrow> 'w \<Rightarrow> 'e + unit \<times> 'w"
  default_preprocess_learn :: "'d \<Rightarrow> bool \<Rightarrow> 'w \<Rightarrow> 'e + 's \<times> 'w"
  update_with_rollouts :: "'s \<Rightarrow> nat \<Rightarrow> 'w \<Rightarrow> 'e + unit \<times> 'w"
  train_iter :: "'w \<Rightarrow> int"
  envstep :: "'w \<Rightarrow> int"

text \<open>The two configuration entries the main loop reads:
  \<open>cfg.env.collector_env_num\<close> (the number of collector environments, a length, hence
  \<open>nat\<close>) and \<open>cfg.policy.learn.ignore_done\<close>.\<close>

record config =
  collector_env_num :: nat
  ignore_done :: bool

subsection \<open>The trace of calls\<close>

text \<open>Every call the pipeline makes is recorded with its arguments and with what came
  back: the exception, or the returned value.\<close>

datatype ('k, 'd, 's, 't) call =
    New_level_sampler "int list" nat
  | Call_hook string
  | Sample "string option"
  | Env_seed "int list"
  | Env_reset
  | Commander_step
  | Should_eval int
  | Eval int int
  | Collect int 't 'k
  | Train 'd int
  | Default_preprocess_learn 'd bool
  | Update_with_rollouts 's nat

datatype ('k, 'd, 's, 't) ret =
    Ret_unit
  | Ret_level int
  | Ret_bool bool
  | Ret_stop bool
  | Ret_kwargs 'k
  | Ret_data 'd
  | Ret_stacked 's

datatype ('e, 'k, 'd, 's, 't) event = Ev "('k, 'd, 's, 't) call" "'e + ('k, 'd, 's, 't) ret"

type_synonym ('w, 'e, 'k, 'd, 's, 't) pstate = "'w \<times> ('e, 'k, 'd, 's, 't) event list"

type_synonym ('w, 'e, 'k, 'd, 's, 't, 'a) presult =
  "('e \<times> ('e, 'k, 'd, 's, 't) event list) + ('a \<times> ('w, 'e, 'k, 'd, 's, 't) pstate)"

text \<open>One call: the event is appended to the trace; an exception leaves the pipeline
  with the trace so far, since the pipeline has no handler.\<close>

definition invoke ::
  "('k, 'd, 's, 't) call \<Rightarrow> ('a \<Rightarrow> ('k, 'd, 's, 't) ret) \<Rightarrow> ('w \<Rightarrow> 'e + 'a \<times> 'w) \<Rightarrow>
   ('w, 'e, 'k, 'd, 's, 't) pstate \<Rightarrow> ('w, 'e, 'k, 'd, 's, 't, 'a) presult" where
  "invoke c rt f st =
     (case f (fst st) of
        Inl e \<Rightarrow> Inl (e, snd st @ [Ev c (Inl e)])
      | Inr (a, w') \<Rightarrow> Inr (a, (w', snd st @ [Ev c (Inr (rt a))])))"

section \<open>The pipeline\<close>

text \<open>\<^verbatim>\<open>[int(level_sampler.sample(strategy)) for _ in range(collector_env_num)]\<close>\<close>

fun sample_round ::
  "('w, 'e, 'k, 'd, 's, 't) collaborators \<Rightarrow> string option \<Rightarrow> nat \<Rightarrow>
   ('w, 'e, 'k, 'd, 's, 't) pstate \<Rightarrow> ('w, 'e, 'k, 'd, 's, 't, int list) presult" where
  "sample_round C strategy 0 st = Inr ([], st)"
| "sample_round C strategy (Suc n) st =
     (case invoke (Sample strategy) Ret_level (sample C strategy) st of
        Inl x \<Rightarrow> Inl x
      | Inr (i, st1) \<Rightarrow>
          (case sample_round C strategy n st1 of
             Inl x \<Rightarrow> Inl x
           | Inr (seeds, st2) \<Rightarrow> Inr (i # seeds, st2)))"

text \<open>\<^verbatim>\<open>collector_env.seed(seeds); collector_env.reset()\<close>\<close>

definition assign_seeds ::
  "('w, 'e, 'k, 'd, 's, 't) collaborators \<Rightarrow> int list \<Rightarrow>
   ('w, 'e, 'k, 'd, 's, 't) pstate \<Rightarrow> ('w, 'e, 'k, 'd, 's, 't, unit) presult" where
  "assign_seeds C seeds st =
     (case invoke (Env_seed seeds) (\<lambda>_. Ret_unit) (env_seed C seeds) st of
        Inl x \<Rightarrow> Inl x
      | Inr (_, st1) \<Rightarrow> invoke Env_reset (\<lambda>_. Ret_unit) (env_reset C) st1)"

text \<open>Lines 65 to 100: the pool, the sampler, the learner's \<open>before_run\<close> hook and the
  first, sequential assignment. The result is \<open>level_seeds = torch.Tensor(seeds)\<close>.\<close>

definition startup ::
  "('w, 'e, 'k, 'd, 's, 't) collaborators \<Rightarrow> config \<Rightarrow>
   ('w, 'e, 'k, 'd, 's, 't) pstate \<Rightarrow> ('w, 'e, 'k, 'd, 's, 't, 't) presult" where
  "startup C cfg st =
     (let train_seeds = generate_seeds 500 0 in
      case invoke (New_level_sampler train_seeds (collector_env_num cfg)) (\<lambda>_. Ret_unit)
             (new_level_sampler C train_seeds (collector_env_num cfg)) st of
        Inl x \<Rightarrow> Inl x
      | Inr (_, st1) \<Rightarrow>
     (case invoke (Call_hook ''before_run'') (\<lambda>_. Ret_unit) (call_hook C ''before_run'') st1 of
        Inl x \<Rightarrow> Inl x
      | Inr (_, st2) \<Rightarrow>
     (case sample_round C (Some ''sequential'') (collector_env_num cfg) st2 of
        Inl x \<Rightarrow> Inl x
      | Inr (seeds, st3) \<Rightarrow>
     (case assign_seeds C seeds st3 of
        Inl x \<Rightarrow> Inl x
      | Inr (_, st4) \<Rightarrow> Inr (tensor C seeds, st4)))))"

text \<open>Lines 110 to 116: collect with the current level seeds, train, update the
  sampler's scores from the stacked rollouts.\<close>

definition collect_learn ::
  "('w, 'e, 'k, 'd, 's, 't) collaborators \<Rightarrow> config \<Rightarrow> 't \<Rightarrow> 'k \<Rightarrow>
   ('w, 'e, 'k, 'd, 's, 't) pstate \<Rightarrow> ('w, 'e, 'k, 'd, 's, 't, unit) presult" where
  "collect_learn C cfg level_seeds collect_kwargs st =
     (case invoke (Collect (train_iter C (fst st)) level_seeds collect_kwargs) Ret_data
             (collect C (train_iter C (fst st)) level_seeds collect_kwargs) st of
        Inl x \<Rightarrow> Inl x
      | Inr (new_data, st1) \<Rightarrow>
     (case invoke (Train new_data (envstep C (fst st1))) (\<lambda>_. Ret_unit)
             (train C new_data (envstep C (fst st1))) st1 of
        Inl x \<Rightarrow> Inl x
      | Inr (_, st2) \<Rightarrow>
     (case invoke (Default_preprocess_learn new_data (ignore_done cfg)) Ret_stacked
             (default_preprocess_learn C new_data (ignore_done cfg)) st2 of
        Inl x \<Rightarrow> Inl x
      | Inr (stacked_data, st3) \<Rightarrow>
          invoke (Update_with_rollouts stacked_data (collector_env_num cfg)) (\<lambda>_. Ret_unit)
            (update_with_rollouts C stacked_data (collector_env_num cfg)) st3)))"

text \<open>Lines 117 to 122: the next assignment, drawn with the sampler's default strategy,
  then the test of the two limits. The result is the break flag and
  \<open>level_seeds = torch.Tensor(seeds)\<close>.\<close>

definition reseed ::
  "('w, 'e, 'k, 'd, 's, 't) collaborators \<Rightarrow> config \<Rightarrow> int \<Rightarrow> int \<Rightarrow>
   ('w, 'e, 'k, 'd, 's, 't) pstate \<Rightarrow> ('w, 'e, 'k, 'd, 's, 't, bool \<times> 't) presult" where
  "reseed C cfg max_train_iter max_env_step st =
     (case sample_round C None (collector_env_num cfg) st of
        Inl x \<Rightarrow> Inl x
      | Inr (seeds, st1) \<Rightarrow>
     (case assign_seeds C seeds st1 of
        Inl x \<Rightarrow> Inl x
      | Inr (_, st2) \<Rightarrow>
          Inr ((max_env_step \<le> envstep C (fst st2) \<or> max_train_iter \<le> train_iter C (fst st2),
                tensor C seeds), st2)))"

text \<open>The body of \<open>while True\<close>, lines 103 to 122. The flag of the result is \<open>True\<close>
  when the body leaves the loop with \<open>break\<close>.\<close>

definition cycle ::
  "('w, 'e, 'k, 'd, 's, 't) collaborators \<Rightarrow> config \<Rightarrow> int \<Rightarrow> int \<Rightarrow> 't \<Rightarrow>
   ('w, 'e, 'k, 'd, 's, 't) pstate \<Rightarrow> ('w, 'e, 'k, 'd, 's, 't, bool \<times> 't) presult" where
  "cycle C cfg max_train_iter max_env_step level_seeds st =
     (case invoke Commander_step Ret_kwargs (commander_step C) st of
        Inl x \<Rightarrow> Inl x
      | Inr (collect_kwargs, st1) \<Rightarrow>
     (case invoke (Should_eval (train_iter C (fst st1))) Ret_bool
             (should_eval C (train_iter C (fst st1))) st1 of
        Inl x \<Rightarrow> Inl x
      | Inr (due, st2) \<Rightarrow>
     (case (if due
            then invoke (Eval (train_iter C (fst st2)) (envstep C (fst st2))) Ret_stop
                   (eval C (train_iter C (fst st2)) (envstep C (fst st2))) st2
            else Inr (False, st2)) of
        Inl x \<Rightarrow> Inl x
      | Inr (stop, st3) \<Rightarrow>
          if stop then Inr ((True, level_seeds), st3)
          else
     (case collect_learn C cfg level_seeds collect_kwargs st3 of
        Inl x \<Rightarrow> Inl x
      | Inr (_, st4) \<Rightarrow> reseed C cfg max_train_iter max_env_step st4))))"

text \<open>\<open>while True\<close> may run forever: the loop is a partial function, \<open>None\<close> when it
  never leaves.\<close>

partial_function (option) main_loop ::
  "('w, 'e, 'k, 'd, 's, 't) collaborators \<Rightarrow> config \<Rightarrow> int \<Rightarrow> int \<Rightarrow> 't \<Rightarrow>
   ('w, 'e, 'k, 'd, 's, 't) pstate \<Rightarrow> ('w, 'e, 'k, 'd, 's, 't, unit) presult option" where
  "main_loop C cfg max_train_iter max_env_step level_seeds st =
     (case cycle C cfg max_train_iter max_env_step level_seeds st of
        Inl x \<Rightarrow> Some (Inl x)
      | Inr ((brk, level_seeds'), st') \<Rightarrow>
          if brk then Some (Inr ((), st'))
          else main_loop C cfg max_train_iter max_env_step level_seeds' st')"

text \<open>The pipeline from line 65 on, started in the world \<open>w\<close> that the construction of
  the collaborators (lines 48 to 87, the sampler apart) leaves. \<open>Inr\<close> is
  \<open>return policy\<close>: the policy object is part of the final world.\<close>

definition serial_pipeline_plr ::
  "('w, 'e, 'k, 'd, 's, 't) collaborators \<Rightarrow> config \<Rightarrow> int \<Rightarrow> int \<Rightarrow> 'w \<Rightarrow>
   ('w, 'e, 'k, 'd, 's, 't, unit) presult option" where
  "serial_pipeline_plr C cfg max_train_iter max_env_step w =
     (case startup C cfg (w, []) of
        Inl x \<Rightarrow> Some (Inl x)
      | Inr (level_seeds, st1) \<Rightarrow>
     (case main_loop C cfg max_train_iter max_env_step level_seeds st1 of
        None \<Rightarrow> None
      | Some (Inl x) \<Rightarrow> Some (Inl x)
      | Some (Inr (_, st2)) \<Rightarrow>
          Some (invoke (Call_hook ''after_run'') (\<lambda>_. Ret_unit) (call_hook C ''after_run'') st2)))"

section \<open>Reading a trace\<close>

fun call_of :: "('e, 'k, 'd, 's, 't) event \<Rightarrow> ('k, 'd, 's, 't) call" where
  "call_of (Ev c r) = c"

fun raised :: "('e, 'k, 'd, 's, 't) event \<Rightarrow> bool" where
  "raised (Ev c (Inl e)) = True"
| "raised (Ev c (Inr v)) = False"

definition trace_of :: "('w, 'e, 'k, 'd, 's, 't, 'a) presult \<Rightarrow> ('e, 'k, 'd, 's, 't) event list" where
  "trace_of res = (case res of Inl (e, tr) \<Rightarrow> tr | Inr (a, w, tr) \<Rightarrow> tr)"

fun is_commander_step :: "('e, 'k, 'd, 's, 't) event \<Rightarrow> bool" where
  "is_commander_step (Ev Commander_step r) = True"
| "is_commander_step _ = False"

fun is_eval :: "('e, 'k, 'd, 's, 't) event \<Rightarrow> bool" where
  "is_eval (Ev (Eval ti es) r) = True"
| "is_eval _ = False"

fun is_collect :: "('e, 'k, 'd, 's, 't) event \<Rightarrow> bool" where
  "is_collect (Ev (Collect ti ls kw) r) = True"
| "is_collect _ = False"

fun is_train :: "('e, 'k, 'd, 's, 't) event \<Rightarrow> bool" where
  "is_train (Ev (Train d es) r) = True"
| "is_train _ = False"

fun is_update :: "('e, 'k, 'd, 's, 't) event \<Rightarrow> bool" where
  "is_update (Ev (Update_with_rollouts sd n) r) = True"
| "is_update _ = False"

fun is_sample :: "('e, 'k, 'd, 's, 't) event \<Rightarrow> bool" where
  "is_sample (Ev (Sample strategy) r) = True"
| "is_sample _ = False"

text \<open>A weighted draw is a call of \<open>sample\<close> without a strategy argument.\<close>

definition is_weighted :: "('e, 'k, 'd, 's, 't) event \<Rightarrow> bool" where
  "is_weighted ev = (call_of ev = Sample None)"

text \<open>The evaluator's stop signal: \<open>eval\<close> returned with \<open>stop = True\<close>.\<close>

fun is_stop :: "('e, 'k, 'd, 's, 't) event \<Rightarrow> bool" where
  "is_stop (Ev (Eval ti es) (Inr (Ret_stop b))) = b"
| "is_stop _ = False"

text \<open>The level ids the sampler has returned, in the order of the calls.\<close>

fun level_of :: "('e, 'k, 'd, 's, 't) event \<Rightarrow> int list" where
  "level_of (Ev (Sample strategy) (Inr (Ret_level i))) = [i]"
| "level_of _ = []"

definition returned_levels :: "('e, 'k, 'd, 's, 't) event list \<Rightarrow> int list" where
  "returned_levels tr = concat (map level_of tr)"

definition last_n :: "nat \<Rightarrow> 'a list \<Rightarrow> 'a list" where
  "last_n n xs = drop (length xs - n) xs"

text \<open>The place of a call in the body of the loop.\<close>

fun rank :: "('k, 'd, 's, 't) call \<Rightarrow> nat" where
  "rank Commander_step = 0"
| "rank (Should_eval ti) = 1"
| "rank (Eval ti es) = 2"
| "rank (Collect ti ls kw) = 3"
| "rank (Train d es) = 4"
| "rank (Default_preprocess_learn d ig) = 5"
| "rank (Update_with_rollouts sd n) = 6"
| "rank (Sample strategy) = 7"
| "rank (Env_seed xs) = 8"
| "rank Env_reset = 9"
| "rank (New_level_sampler xs n) = 10"
| "rank (Call_hook h) = 10"

text \<open>The events of a successful round of \<open>n\<close> draws and of the assignment that
  follows it.\<close>

definition drawn ::
  "string option \<Rightarrow> int list \<Rightarrow> ('e, 'k, 'd, 's, 't) event list" where
  "drawn strategy seeds = map (\<lambda>i. Ev (Sample strategy) (Inr (Ret_level i))) seeds"

definition assigned :: "int list \<Rightarrow> ('e, 'k, 'd, 's, 't) event list" where
  "assigned seeds = [Ev (Env_seed seeds) (Inr Ret_unit), Ev Env_reset (Inr Ret_unit)]"

section \<open>Contracts of the collaborators\<close>

text \<open>
  The learner's class is not part of the entry module. What the loop's exit test relies
  on is the contract of its counter: \<open>train_iter\<close> counts completed training
  iterations, so it is never negative, a call of \<open>train\<close> that returns has advanced it,
  and the calls that follow \<open>train\<close> in the body of the loop do not move it back.
\<close>

definition train_iter_contract :: "('w, 'e, 'k, 'd, 's, 't) collaborators \<Rightarrow> bool" where
  "train_iter_contract C \<longleftrightarrow>
     (\<forall>w. 0 \<le> train_iter C w) \<and>
     (\<forall>d es w w'. train C d es w = Inr ((), w') \<longrightarrow> train_iter C w < train_iter C w') \<and>
     (\<forall>d b w sd w'. default_preprocess_learn C d b w = Inr (sd, w') \<longrightarrow>
        train_iter C w \<le> train_iter C w') \<and>
     (\<forall>sd n w w'. update_with_rollouts C sd n w = Inr ((), w') \<longrightarrow>
        train_iter C w \<le> train_iter C w') \<and>
     (\<forall>strategy w i w'. sample C strategy w = Inr (i, w') \<longrightarrow>
        train_iter C w \<le> train_iter C w') \<and>
     (\<forall>xs w w'. env_seed C xs w = Inr ((), w') \<longrightarrow> train_iter C w \<le> train_iter C w') \<and>
     (\<forall>w w'. env_reset C w = Inr ((), w') \<longrightarrow> train_iter C w \<le> train_iter C w')"

text \<open>An evaluator that never signals stop.\<close>

definition never_stops :: "('w, 'e, 'k, 'd, 's, 't) collaborators \<Rightarrow> bool" where
  "never_stops C \<longleftrightarrow> (\<forall>ti es w stop w'. eval C ti es w = Inr (stop, w') \<longrightarrow> \<not> stop)"

section \<open>A level sampler and a set of collaborators to run the pipeline on\<close>

text \<open>
  Modelled from the spec: the class \<open>LevelSampler\<close> (module
  \<open>ding.data.level_replay.level_sampler\<close>) is imported by the entry module and is not
  among the sources. The model follows section 4.1 of the specification: the
  \<open>sequential\<close> strategy returns the next level of the pool, in pool order, that has
  never been visited, and fails with \<open>ExhaustedPoolError\<close> once every level has been
  visited; a draw resets the staleness of the drawn level to 0 and increments its visit
  count; at the end of a full assignment round (one draw per worker) the staleness of
  every level not drawn in the round grows by 1. The weighted strategy returns a level of
  the pool; its probabilities are not modelled, the pseudo-random choice is the index
  \<open>rng k\<close> for the \<open>k\<close>-th weighted draw. Scores play no part in what is proved here and
  are left out.
\<close>

datatype sampler_error = ExhaustedPoolError | EmptyPoolError

record level_sampler =
  pool :: "int list"
  worker_count :: nat
  visit_count :: "int \<Rightarrow> nat"
  staleness :: "int \<Rightarrow> nat"
  round_picks :: "int list"
  rng :: "nat \<Rightarrow> nat"
  weighted_draws :: nat

definition new_sampler :: "int list \<Rightarrow> nat \<Rightarrow> (nat \<Rightarrow> nat) \<Rightarrow> level_sampler" where
  "new_sampler seeds n g =
     \<lparr>pool = seeds, worker_count = n, visit_count = (\<lambda>_. 0), staleness = (\<lambda>_. 0),
      round_picks = [], rng = g, weighted_draws = 0\<rparr>"

definition mark_sampled :: "int \<Rightarrow> level_sampler \<Rightarrow> level_sampler" where
  "mark_sampled l s =
     (let s1 = s\<lparr>visit_count := (visit_count s)(l := visit_count s l + 1),
                staleness := (staleness s)(l := 0),
                round_picks := round_picks s @ [l]\<rparr>
      in if worker_count s1 \<le> length (round_picks s1)
         then s1\<lparr>staleness :=
                    (\<lambda>x. if x \<in> set (pool s1) \<and> x \<notin> set (round_picks s1)
                         then staleness s1 x + 1 else staleness s1 x),
                 round_picks := []\<rparr>
         else s1)"

definition sampler_sample ::
  "string option \<Rightarrow> level_sampler \<Rightarrow> sampler_error + int \<times> level_sampler" where
  "sampler_sample strategy s =
     (if strategy = Some ''sequential''
      then (case find (\<lambda>l. visit_count s l = 0) (pool s) of
              None \<Rightarrow> Inl ExhaustedPoolError
            | Some l \<Rightarrow> Inr (l, mark_sampled l s))
      else if pool s = [] then Inl EmptyPoolError
      else (let l = pool s ! (rng s (weighted_draws s) mod length (pool s))
            in Inr (l, mark_sampled l (s\<lparr>weighted_draws := weighted_draws s + 1\<rparr>))))"

text \<open>
  The other collaborators, reduced to what the loop observes: a learner that counts its
  training iterations, a collector that counts one environment step per worker and
  returns the level seeds it ran as its data, an evaluator that is due at every even
  iteration and signals stop from the iteration \<open>stop_at\<close> on (never, when \<open>None\<close>), and
  an environment that crashes in \<open>collect\<close> when \<open>crash\<close> is set. The levels of the pool
  are below \<open>2 ^ 24\<close>, so the tensor of a list of levels is given by the list itself.
\<close>

datatype toy_error = Sampler_error sampler_error | Env_crash

record toy_world =
  sampler :: level_sampler
  iter :: nat
  steps :: nat
  active :: "int list"

definition toy_sample :: "string option \<Rightarrow> toy_world \<Rightarrow> toy_error + int \<times> toy_world" where
  "toy_sample strategy w =
     (case sampler_sample strategy (sampler w) of
        Inl e \<Rightarrow> Inl (Sampler_error e)
      | Inr (l, s') \<Rightarrow> Inr (l, w\<lparr>sampler := s'\<rparr>))"

definition toy ::
  "int option \<Rightarrow> bool \<Rightarrow> (toy_world, toy_error, unit, int list, int list, int list) collaborators" where
  "toy stop_at crash =
     \<lparr>new_level_sampler = (\<lambda>seeds n w. Inr ((), w\<lparr>sampler := new_sampler seeds n (\<lambda>_. 0)\<rparr>)),
      call_hook = (\<lambda>h w. Inr ((), w)),
      sample = toy_sample,
      tensor = (\<lambda>seeds. seeds),
      env_seed = (\<lambda>xs w. Inr ((), w\<lparr>active := xs\<rparr>)),
      env_reset = (\<lambda>w. Inr ((), w)),
      commander_step = (\<lambda>w. Inr ((), w)),
      should_eval = (\<lambda>ti w. Inr (ti mod 2 = 0, w)),
      eval = (\<lambda>ti es w. Inr (case stop_at of None \<Rightarrow> False | Some k \<Rightarrow> k \<le> ti, w)),
      collect = (\<lambda>ti ls kw w.
         if crash then Inl Env_crash
         else Inr (ls, w\<lparr>steps := steps w + length ls\<rparr>)),
      train = (\<lambda>d es w. Inr ((), w\<lparr>iter := iter w + 1\<rparr>)),
      default_preprocess_learn = (\<lambda>d b w. Inr (d, w)),
      update_with_rollouts = (\<lambda>sd n w. Inr ((), w)),
      train_iter = (\<lambda>w. int (iter w)),
      envstep = (\<lambda>w. int (steps w))\<rparr>"

definition toy_world0 :: toy_world where
  "toy_world0 = \<lparr>sampler = new_sampler [] 0 (\<lambda>_. 0), iter = 0, steps = 0, active = []\<rparr>"

definition two_workers :: config where
  "two_workers = \<lparr>collector_env_num = 2, ignore_done = False\<rparr>"

section \<open>Stating properties of traces\<close>

text \<open>What holds of the outcome of a phase: \<open>Q\<close> of the value and state it returns,
  \<open>E\<close> of the exception and the trace it leaves.\<close>

definition post ::
  "('w, 'e, 'k, 'd, 's, 't, 'a) presult \<Rightarrow> ('a \<Rightarrow> ('w, 'e, 'k, 'd, 's, 't) pstate \<Rightarrow> bool) \<Rightarrow>
   ('e \<Rightarrow> ('e, 'k, 'd, 's, 't) event list \<Rightarrow> bool) \<Rightarrow> bool" where
  "post res Q E = (case res of Inl (e, tr) \<Rightarrow> E e tr | Inr (a, st') \<Rightarrow> Q a st')"

text \<open>The trace \<open>tr'\<close> extends \<open>tr\<close> by events of which \<open>P\<close> holds.\<close>

definition ext :: "'a list \<Rightarrow> 'a list \<Rightarrow> ('a list \<Rightarrow> bool) \<Rightarrow> bool" where
  "ext tr tr' P = (\<exists>seg. tr' = tr @ seg \<and> P seg)"

fun is_new_sampler :: "('e, 'k, 'd, 's, 't) event \<Rightarrow> bool" where
  "is_new_sampler (Ev (New_level_sampler xs n) r) = True"
| "is_new_sampler _ = False"

fun is_after_run :: "('e, 'k, 'd, 's, 't) event \<Rightarrow> bool" where
  "is_after_run (Ev (Call_hook h) r) = (h = ''after_run'')"
| "is_after_run _ = False"

text \<open>The call raised exactly the exception \<open>e\<close>.\<close>

fun raised_with :: "'e \<Rightarrow> ('e, 'k, 'd, 's, 't) event \<Rightarrow> bool" where
  "raised_with e (Ev c r) = (r = Inl e)"

text \<open>The part of a trace before the first weighted draw, and the levels that the
  sampler has returned up to there.\<close>

definition before_weighted :: "('e, 'k, 'd, 's, 't) event list \<Rightarrow> ('e, 'k, 'd, 's, 't) event list" where
  "before_weighted tr = takeWhile (\<lambda>ev. \<not> is_weighted ev) tr"

definition covered :: "('e, 'k, 'd, 's, 't) event list \<Rightarrow> bool" where
  "covered tr \<longleftrightarrow> set (generate_seeds 500 0) \<subseteq> set (returned_levels (before_weighted tr))"

text \<open>A monitor for the seeds handed to the environments: every \<open>collector_env.seed\<close> is
  called with the \<open>n\<close> level ids that the sampler returned last, and every \<open>collect\<close>
  with the tensor \<open>tn\<close> of these \<open>n\<close> level ids, \<open>acc\<close> being the level ids returned
  before the trace.\<close>

fun follows ::
  "(int list \<Rightarrow> 't) \<Rightarrow> nat \<Rightarrow> int list \<Rightarrow> ('e, 'k, 'd, 's, 't) event list \<Rightarrow> bool" where
  "follows tn n acc [] = True"
| "follows tn n acc (ev # tr) =
     ((case call_of ev of
         Env_seed xs \<Rightarrow> length xs = n \<and> xs = last_n n acc
       | Collect ti ls kw \<Rightarrow> n \<le> length acc \<and> ls = tn (last_n n acc)
       | _ \<Rightarrow> True) \<and>
      follows tn n (acc @ level_of ev) tr)"

text \<open>A monitor for the reset: a \<open>collector_env.seed\<close> that returns is followed at once by
  \<open>collector_env.reset\<close>.\<close>

fun seeded :: "('e, 'k, 'd, 's, 't) event \<Rightarrow> bool" where
  "seeded (Ev (Env_seed xs) (Inr v)) = True"
| "seeded _ = False"

fun reset_next :: "('e, 'k, 'd, 's, 't) event list \<Rightarrow> bool" where
  "reset_next [] = True"
| "reset_next (ev # tr) =
     ((seeded ev \<longrightarrow> (case tr of [] \<Rightarrow> False | ev' # _ \<Rightarrow> call_of ev' = Env_reset)) \<and>
      reset_next tr)"

text \<open>The calls after which an assignment round starts: the \<open>before_run\<close> hook (line 93)
  and \<open>update_with_rollouts\<close> (line 116), when they return.\<close>

fun starts_round :: "('e, 'k, 'd, 's, 't) event \<Rightarrow> bool" where
  "starts_round (Ev (Call_hook h) (Inr v)) = (h = ''before_run'')"
| "starts_round (Ev (Update_with_rollouts sd n) (Inr v)) = True"
| "starts_round _ = False"

text \<open>The events \<open>tr\<close> that follow such a call hold a full assignment: \<open>n\<close> draws that
  return, \<open>collector_env.seed\<close> with the levels drawn and \<open>collector_env.reset\<close>, both
  returning; unless one of these \<open>n + 2\<close> calls raised.\<close>

definition round_installed :: "nat \<Rightarrow> ('e, 'k, 'd, 's, 't) event list \<Rightarrow> bool" where
  "round_installed n tr \<longleftrightarrow>
     list_ex raised (take (n + 2) tr) \<or>
     (\<exists>strategy seeds rest. length seeds = n \<and> tr = drawn strategy seeds @ assigned seeds @ rest)"

fun installs :: "nat \<Rightarrow> ('e, 'k, 'd, 's, 't) event list \<Rightarrow> bool" where
  "installs n [] = True"
| "installs n (ev # tr) = ((starts_round ev \<longrightarrow> round_installed n tr) \<and> installs n tr)"

text \<open>The events of a pass through the body of the loop in which every call returns and
  the evaluator does not stop the loop; \<open>ti2\<close> and \<open>es2\<close> are the arguments of the
  evaluation when it was due.\<close>

definition cycle_events ::
  "'k \<Rightarrow> int \<Rightarrow> bool \<Rightarrow> int \<Rightarrow> int \<Rightarrow> int \<Rightarrow> 't \<Rightarrow> 'd \<Rightarrow> int \<Rightarrow> bool \<Rightarrow> 's \<Rightarrow> nat \<Rightarrow>
   int list \<Rightarrow> ('e, 'k, 'd, 's, 't) event list" where
  "cycle_events kw ti due ti2 es2 ti' ls d es ig sd n seeds =
     [Ev Commander_step (Inr (Ret_kwargs kw)), Ev (Should_eval ti) (Inr (Ret_bool due))] @
     (if due then [Ev (Eval ti2 es2) (Inr (Ret_stop False))] else []) @
     [Ev (Collect ti' ls kw) (Inr (Ret_data d)), Ev (Train d es) (Inr Ret_unit),
      Ev (Default_preprocess_learn d ig) (Inr (Ret_stacked sd)),
      Ev (Update_with_rollouts sd n) (Inr Ret_unit)] @
     drawn None seeds @ assigned seeds"

text \<open>The events of a pass that the evaluator stops.\<close>

definition stop_events :: "'k \<Rightarrow> int \<Rightarrow> int \<Rightarrow> int \<Rightarrow> ('e, 'k, 'd, 's, 't) event list" where
  "stop_events kw ti ti2 es2 =
     [Ev Commander_step (Inr (Ret_kwargs kw)), Ev (Should_eval ti) (Inr (Ret_bool True)),
      Ev (Eval ti2 es2) (Inr (Ret_stop True))]"

text \<open>Three runs of the pipeline on the collaborators above, with two workers: one that
  ends on the limit of one training iteration, one that the evaluator stops at the
  second iteration, one whose environment crashes.\<close>

definition run_limit ::
  "(toy_world, toy_error, unit, int list, int list, int list, unit) presult option" where
  "run_limit = serial_pipeline_plr (toy None False) two_workers 1 0 toy_world0"

definition run_stop ::
  "(toy_world, toy_error, unit, int list, int list, int list, unit) presult option" where
  "run_stop = serial_pipeline_plr (toy (Some 2) False) two_workers 10 100 toy_world0"

definition run_crash ::
  "(toy_world, toy_error, unit, int list, int list, int list, unit) presult option" where
  "run_crash = serial_pipeline_plr (toy None True) two_workers 10 100 toy_world0"

definition final_world :: "('w, 'e, 'k, 'd, 's, 't, 'a) presult \<Rightarrow> 'w option" where
  "final_world res = (case res of Inl x \<Rightarrow> None | Inr (a, w, tr) \<Rightarrow> Some w)"

text \<open>The world once the sampler has been built over the pool, and the traces of the
  three runs.\<close>

definition toy_world1 :: toy_world where
  "toy_world1 = toy_world0\<lparr>sampler := new_sampler (generate_seeds 500 0) 2 (\<lambda>_. 0)\<rparr>"

definition startup_trace :: "(toy_error, unit, int list, int list, int list) event list" where
  "startup_trace =
     [Ev (New_level_sampler (generate_seeds 500 0) 2) (Inr Ret_unit),
      Ev (Call_hook ''before_run'') (Inr Ret_unit),
      Ev (Sample (Some ''sequential'')) (Inr (Ret_level 0)),
      Ev (Sample (Some ''sequential'')) (Inr (Ret_level 1)),
      Ev (Env_seed [0, 1]) (Inr Ret_unit), Ev Env_reset (Inr Ret_unit)]"

definition first_cycle_trace :: "(toy_error, unit, int list, int list, int list) event list" where
  "first_cycle_trace =
     [Ev Commander_step (Inr (Ret_kwargs ())),
      Ev (Should_eval 0) (Inr (Ret_bool True)),
      Ev (Eval 0 0) (Inr (Ret_stop False)),
      Ev (Collect 0 [0, 1] ()) (Inr (Ret_data [0, 1])),
      Ev (Train [0, 1] 2) (Inr Ret_unit),
      Ev (Default_preprocess_learn [0, 1] False) (Inr (Ret_stacked [0, 1])),
      Ev (Update_with_rollouts [0, 1] 2) (Inr Ret_unit),
      Ev (Sample None) (Inr (Ret_level 0)),
      Ev (Sample None) (Inr (Ret_level 0)),
      Ev (Env_seed [0, 0]) (Inr Ret_unit), Ev Env_reset (Inr Ret_unit)]"

definition limit_trace :: "(toy_error, unit, int list, int list, int list) event list" where
  "limit_trace = startup_trace @ first_cycle_trace @ [Ev (Call_hook ''after_run'') (Inr Ret_unit)]"

definition stop_trace :: "(toy_error, unit, int list, int list, int list) event list" where
  "stop_trace =
     startup_trace @ first_cycle_trace @
     [Ev Commander_step (Inr (Ret_kwargs ())),
      Ev (Should_eval 1) (Inr (Ret_bool False)),
      Ev (Collect 1 [0, 0] ()) (Inr (Ret_data [0, 0])),
      Ev (Train [0, 0] 4) (Inr Ret_unit),
      Ev (Default_preprocess_learn [0, 0] False) (Inr (Ret_stacked [0, 0])),
      Ev (Update_with_rollouts [0, 0] 2) (Inr Ret_unit),
      Ev (Sample None) (Inr (Ret_level 0)),
      Ev (Sample None) (Inr (Ret_level 0)),
      Ev (Env_seed [0, 0]) (Inr Ret_unit), Ev Env_reset (Inr Ret_unit),
      Ev Commander_step (Inr (Ret_kwargs ())),
      Ev (Should_eval 2) (Inr (Ret_bool True)),
      Ev (Eval 2 4) (Inr (Ret_stop True)),
      Ev (Call_hook ''after_run'') (Inr Ret_unit)]"

definition crash_trace :: "(toy_error, unit, int list, int list, int list) event list" where
  "crash_trace =
     startup_trace @
     [Ev Commander_step (Inr (Ret_kwargs ())),
      Ev (Should_eval 0) (Inr (Ret_bool True)),
      Ev (Eval 0 0) (Inr (Ret_stop False)),
      Ev (Collect 0 [0, 1] ()) (Inl Env_crash)]"

text \<open>The sampler is built once, first of all calls, over the pool of the default
  arguments of \<open>generate_seeds\<close>.\<close>

definition pool_first :: "nat \<Rightarrow> ('e, 'k, 'd, 's, 't) event list \<Rightarrow> bool" where
  "pool_first n tr \<longleftrightarrow>
     (\<exists>r rest. tr = Ev (New_level_sampler (generate_seeds 500 0) n) r # rest \<and>
        (\<forall>ev\<in>set rest. \<not> is_new_sampler ev))"

text \<open>The events of the start of the pipeline when every call returns.\<close>

definition startup_events :: "nat \<Rightarrow> int list \<Rightarrow> ('e, 'k, 'd, 's, 't) event list" where
  "startup_events n seeds =
     [Ev (New_level_sampler (generate_seeds 500 0) n) (Inr Ret_unit),
      Ev (Call_hook ''before_run'') (Inr Ret_unit)] @
     drawn (Some ''sequential'') seeds @ assigned seeds"

text \<open>A trace holds a full Collect and a full Learn phase: \<open>collect\<close>, \<open>train\<close> and
  \<open>update_with_rollouts\<close> have been called and have returned.\<close>

definition learned :: "('e, 'k, 'd, 's, 't) event list \<Rightarrow> bool" where
  "learned tr \<longleftrightarrow>
     (\<exists>ev\<in>set tr. is_collect ev \<and> \<not> raised ev) \<and>
     (\<exists>ev\<in>set tr. is_train ev \<and> \<not> raised ev) \<and>
     (\<exists>ev\<in>set tr. is_update ev \<and> \<not> raised ev)"

text \<open>The run with both limits at 0.\<close>

definition run_zero ::
  "(toy_world, toy_error, unit, int list, int list, int list, unit) presult option" where
  "run_zero = serial_pipeline_plr (toy None False) two_workers 0 0 toy_world0"

section \<open>Basic facts\<close>

lemma length_generate_seeds: "length (generate_seeds n b) = nat n"
  by (simp add: generate_seeds_def)

lemma nth_generate_seeds: "int k < n \<Longrightarrow> generate_seeds n b ! k = b + int k"
  by (simp add: generate_seeds_def)

lemma generate_seeds_Nil: "generate_seeds n b = [] \<longleftrightarrow> n \<le> 0"
  by (auto simp: generate_seeds_def)

lemma generate_seeds_rec:
  "0 < n \<Longrightarrow> generate_seeds n b = b # generate_seeds (n - 1) (b + 1)"
  by (rule nth_equalityI)
     (auto simp: length_generate_seeds nth_generate_seeds nth_Cons split: nat.splits)

lemma find_generate_seeds:
  "find P (generate_seeds n b) =
     (if 0 < n then if P b then Some b else find P (generate_seeds (n - 1) (b + 1)) else None)"
proof (cases "0 < n")
  case True
  then show ?thesis by (simp add: generate_seeds_rec[OF True])
next
  case False
  then have "generate_seeds n b = []" by (simp add: generate_seeds_Nil)
  with False show ?thesis by simp
qed

lemma generate_seeds_default: "generate_seeds 500 0 = map int [0..<500]"
  by (rule nth_equalityI) (simp_all add: length_generate_seeds nth_generate_seeds)

lemma invoke_eq_Inl:
  "invoke c rt f st = Inl x \<longleftrightarrow> (\<exists>e. f (fst st) = Inl e \<and> x = (e, snd st @ [Ev c (Inl e)]))"
  by (auto simp: invoke_def split: sum.splits)

lemma invoke_eq_Inr:
  "invoke c rt f st = Inr y \<longleftrightarrow>
     (\<exists>a w'. f (fst st) = Inr (a, w') \<and> y = (a, w', snd st @ [Ev c (Inr (rt a))]))"
  by (auto simp: invoke_def split: sum.splits)

lemma sample_round_Inr:
  "sample_round C strategy n st = Inr (seeds, st') \<Longrightarrow>
     length seeds = n \<and> snd st' = snd st @ drawn strategy seeds"
  by (induction n arbitrary: st seeds st')
     (auto simp: invoke_eq_Inr drawn_def split: sum.splits prod.splits)

lemma sample_round_Inl:
  "sample_round C strategy n st = Inl (e, tr) \<Longrightarrow>
     \<exists>seeds. length seeds < n \<and>
       tr = snd st @ drawn strategy seeds @ [Ev (Sample strategy) (Inl e)]"
proof (induction n arbitrary: st)
  case 0
  then show ?case by simp
next
  case (Suc n)
  show ?case
  proof (cases "invoke (Sample strategy) Ret_level (sample C strategy) st")
    case (Inl x)
    with Suc.prems show ?thesis
      by (auto simp: invoke_eq_Inl drawn_def intro!: exI[of _ "[]"])
  next
    case (Inr y)
    obtain i st1 where y: "y = (i, st1)" by (cases y)
    from Inr y have st1: "snd st1 = snd st @ [Ev (Sample strategy) (Inr (Ret_level i))]"
      by (auto simp: invoke_eq_Inr)
    from Suc.prems Inr y have "sample_round C strategy n st1 = Inl (e, tr)"
      by (auto split: sum.splits prod.splits)
    from Suc.IH[OF this] obtain seeds where
      "length seeds < n" "tr = snd st1 @ drawn strategy seeds @ [Ev (Sample strategy) (Inl e)]"
      by blast
    with st1 show ?thesis
      by (intro exI[of _ "i # seeds"]) (simp add: drawn_def)
  qed
qed

text \<open>Partial correctness of the loop: an invariant of the body.\<close>

lemma main_loop_rule_aux:
  assumes run: "main_loop C' cfg' mti' mes' ls st = Some res"
    and cont: "\<And>ls st ls' st'. I ls st \<Longrightarrow> cycle C cfg mti mes ls st = Inr ((False, ls'), st') \<Longrightarrow> I ls' st'"
    and brk: "\<And>ls st ls' st'. I ls st \<Longrightarrow> cycle C cfg mti mes ls st = Inr ((True, ls'), st') \<Longrightarrow> Q (Inr ((), st'))"
    and err: "\<And>ls st x. I ls st \<Longrightarrow> cycle C cfg mti mes ls st = Inl x \<Longrightarrow> Q (Inl x)"
  shows "C' = C \<longrightarrow> cfg' = cfg \<longrightarrow> mti' = mti \<longrightarrow> mes' = mes \<longrightarrow> I ls st \<longrightarrow> Q res"
proof (rule main_loop.raw_induct
    [where P = "\<lambda>C' cfg' mti' mes' ls st res.
        C' = C \<longrightarrow> cfg' = cfg \<longrightarrow> mti' = mti \<longrightarrow> mes' = mes \<longrightarrow> I ls st \<longrightarrow> Q res", OF _ run])
  fix loop C' cfg' mti' mes' ls st res
  assume IH: "\<And>a b c d e f y. loop a b c d e f = Some y \<Longrightarrow>
      a = C \<longrightarrow> b = cfg \<longrightarrow> c = mti \<longrightarrow> d = mes \<longrightarrow> I e f \<longrightarrow> Q y"
  assume eq: "(case cycle C' cfg' mti' mes' ls st of
        Inl x \<Rightarrow> Some (Inl x)
      | Inr ((brk, level_seeds'), st') \<Rightarrow>
          if brk then Some (Inr ((), st'))
          else loop C' cfg' mti' mes' level_seeds' st') = Some res"
  show "C' = C \<longrightarrow> cfg' = cfg \<longrightarrow> mti' = mti \<longrightarrow> mes' = mes \<longrightarrow> I ls st \<longrightarrow> Q res"
  proof (intro impI)
    assume eqs: "C' = C" "cfg' = cfg" "mti' = mti" "mes' = mes" and inv: "I ls st"
    show "Q res"
    proof (cases "cycle C cfg mti mes ls st")
      case (Inl x)
      with eq eqs have "res = Inl x" by simp
      with err[OF inv Inl] show ?thesis by simp
    next
      case (Inr y)
      obtain b ls' st' where y: "y = ((b, ls'), st')" by (cases y) auto
      show ?thesis
      proof (cases b)
        case True
        with eq eqs Inr y have "res = Inr ((), st')" by simp
        with brk[OF inv] Inr y True show ?thesis by simp
      next
        case False
        with eq eqs Inr y have "loop C cfg mti mes ls' st' = Some res" by simp
        moreover from cont[OF inv] Inr y False have "I ls' st'" by simp
        ultimately show ?thesis using IH by blast
      qed
    qed
  qed
qed

lemma main_loop_rule:
  assumes "main_loop C cfg mti mes ls st = Some res"
    and "I ls st"
    and "\<And>ls st ls' st'. I ls st \<Longrightarrow> cycle C cfg mti mes ls st = Inr ((False, ls'), st') \<Longrightarrow> I ls' st'"
    and "\<And>ls st ls' st'. I ls st \<Longrightarrow> cycle C cfg mti mes ls st = Inr ((True, ls'), st') \<Longrightarrow> Q (Inr ((), st'))"
    and "\<And>ls st x. I ls st \<Longrightarrow> cycle C cfg mti mes ls st = Inl x \<Longrightarrow> Q (Inl x)"
  shows "Q res"
  using main_loop_rule_aux[of C cfg mti mes ls st res I C cfg mti mes Q] assms by blast

section \<open>Rules for the outcome of a phase\<close>

lemma ext_append [simp]: "ext tr (tr @ seg) P = P seg"
  by (simp add: ext_def)

lemma ext_self [simp]: "ext tr tr P = P []"
  by (simp add: ext_def)

lemma post_Inr [simp]: "post (Inr (a, st')) Q E = Q a st'"
  by (simp add: post_def)

lemma post_Inl [simp]: "post (Inl (e, tr)) Q E = E e tr"
  by (simp add: post_def)

lemma post_trace: "post res (\<lambda>a st'. R (snd st')) (\<lambda>e tr. R tr) = R (trace_of res)"
  by (auto simp: post_def trace_of_def split: sum.splits)

lemma post_seq:
  "post m (\<lambda>a st'. post (k a st') Q E) E \<Longrightarrow>
   post (case m of Inl x \<Rightarrow> Inl x | Inr (a, st') \<Rightarrow> k a st') Q E"
  by (auto simp: post_def split: sum.splits)

lemma post_invoke:
  assumes "\<And>e. f (fst st) = Inl e \<Longrightarrow> E e (snd st @ [Ev c (Inl e)])"
    and "\<And>a w'. f (fst st) = Inr (a, w') \<Longrightarrow> Q a (w', snd st @ [Ev c (Inr (rt a))])"
  shows "post (invoke c rt f st) Q E"
  using assms by (auto simp: post_def invoke_def split: sum.splits)

lemma post_sample_round:
  assumes "\<And>e seeds. length seeds < n \<Longrightarrow>
      E e (snd st @ drawn strategy seeds @ [Ev (Sample strategy) (Inl e)])"
    and "\<And>seeds st'. sample_round C strategy n st = Inr (seeds, st') \<Longrightarrow> length seeds = n \<Longrightarrow>
      snd st' = snd st @ drawn strategy seeds \<Longrightarrow> Q seeds st'"
  shows "post (sample_round C strategy n st) Q E"
proof (cases "sample_round C strategy n st")
  case (Inl x)
  obtain e tr where "x = (e, tr)" by (cases x)
  with Inl sample_round_Inl[of C strategy n st e tr] assms(1) show ?thesis by auto
next
  case (Inr y)
  obtain seeds st' where "y = (seeds, st')" by (cases y)
  with Inr sample_round_Inr[of C strategy n st seeds st'] assms(2) show ?thesis by auto
qed

lemma post_if:
  "(b \<Longrightarrow> post m1 Q E) \<Longrightarrow> (\<not> b \<Longrightarrow> post m2 Q E) \<Longrightarrow> post (if b then m1 else m2) Q E"
  by simp

lemma post_Inr_I: "Q a st' \<Longrightarrow> post (Inr (a, st')) Q E"
  by simp

lemmas post_rules = post_seq post_invoke post_sample_round post_if post_Inr_I

lemmas phase_defs = cycle_def collect_learn_def reseed_def assign_seeds_def startup_def

lemma sorted_map_const: "sorted (map (\<lambda>x. (c::nat)) xs)"
  by (induction xs) auto

lemma post_traceD: "post res (\<lambda>a st'. R (snd st')) (\<lambda>e tr. R tr) \<Longrightarrow> R (trace_of res)"
  by (auto simp: post_def trace_of_def split: sum.splits)

lemma post_mono:
  "post res Q E \<Longrightarrow> (\<And>a st'. Q a st' \<Longrightarrow> Q' a st') \<Longrightarrow> (\<And>e tr. E e tr \<Longrightarrow> E' e tr) \<Longrightarrow>
   post res Q' E'"
  by (auto simp: post_def split: sum.splits)

text \<open>The whole pipeline: an invariant \<open>I\<close> of the loop, what holds when the loop is
  left by \<open>break\<close>, and what holds of the result.\<close>

lemma pipeline_rule:
  assumes run: "serial_pipeline_plr C cfg mti mes w = Some res"
    and start: "post (startup C cfg (w, [])) I (\<lambda>e tr. R (Inl (e, tr)))"
    and step: "\<And>ls st. I ls st \<Longrightarrow>
      post (cycle C cfg mti mes ls st) (\<lambda>a st'. if fst a then F st' else I (snd a) st')
        (\<lambda>e tr. R (Inl (e, tr)))"
    and fin: "\<And>st. F st \<Longrightarrow>
      post (invoke (Call_hook ''after_run'') (\<lambda>_. Ret_unit) (call_hook C ''after_run'') st)
        (\<lambda>a st'. R (Inr (a, st'))) (\<lambda>e tr. R (Inl (e, tr)))"
  shows "R res"
proof (cases "startup C cfg (w, [])")
  case (Inl x)
  with run have "res = Inl x" by (simp add: serial_pipeline_plr_def)
  with start Inl show ?thesis by (cases x) simp
next
  case (Inr y)
  obtain ls st where y: "y = (ls, st)" by (cases y)
  from start Inr y have inv: "I ls st" by simp
  show ?thesis
  proof (cases "main_loop C cfg mti mes ls st")
    case None
    with run Inr y show ?thesis by (simp add: serial_pipeline_plr_def)
  next
    case (Some lres)
    have "case lres of Inl x \<Rightarrow> R (Inl x) | Inr (u, st') \<Rightarrow> F st'"
    proof (rule main_loop_rule[OF Some, where I = I], rule inv)
      fix ls st ls' st'
      assume "I ls st" "cycle C cfg mti mes ls st = Inr ((False, ls'), st')"
      with step[of ls st] show "I ls' st'" by simp
    next
      fix ls st ls' st'
      assume "I ls st" "cycle C cfg mti mes ls st = Inr ((True, ls'), st')"
      with step[of ls st] show "case Inr ((), st') of Inl x \<Rightarrow> R (Inl x) | Inr (u, st') \<Rightarrow> F st'"
        by simp
    next
      fix ls st x
      assume "I ls st" "cycle C cfg mti mes ls st = Inl x"
      with step[of ls st] show "case Inl x of Inl x \<Rightarrow> R (Inl x) | Inr (u, st') \<Rightarrow> F st'"
        by (cases x) simp
    qed
    show ?thesis
    proof (cases lres)
      case (Inl x)
      with run Inr y Some have "res = Inl x" by (simp add: serial_pipeline_plr_def)
      with \<open>case lres of Inl x \<Rightarrow> R (Inl x) | Inr (u, st') \<Rightarrow> F st'\<close> Inl show ?thesis by simp
    next
      case (Inr z)
      obtain u st' where z: "z = (u, st')" by (cases z)
      with \<open>case lres of Inl x \<Rightarrow> R (Inl x) | Inr (u, st') \<Rightarrow> F st'\<close> Inr have "F st'" by simp
      from run \<open>startup C cfg (w, []) = Inr y\<close> y Some Inr z
      have res: "res = invoke (Call_hook ''after_run'') (\<lambda>_. Ret_unit) (call_hook C ''after_run'') st'"
        by (simp add: serial_pipeline_plr_def)
      from fin[OF \<open>F st'\<close>] show ?thesis
        unfolding res by (auto simp: post_def split: sum.splits)
    qed
  qed
qed

section \<open>The three runs\<close>

lemmas toy_defs = serial_pipeline_plr_def startup_def cycle_def collect_learn_def reseed_def
  assign_seeds_def invoke_def toy_def toy_sample_def sampler_sample_def mark_sampled_def
  new_sampler_def toy_world0_def toy_world1_def two_workers_def Let_def numeral_2_eq_2
  find_generate_seeds length_generate_seeds nth_generate_seeds generate_seeds_Nil
  startup_trace_def first_cycle_trace_def limit_trace_def stop_trace_def crash_trace_def

lemma run_limit_trace: "map_option trace_of run_limit = Some limit_trace"
  by (simp add: run_limit_def toy_defs main_loop.simps trace_of_def)

lemma run_limit_returns:
  "run_limit = Some (Inr ((), the (final_world (the run_limit)), limit_trace))"
  by (simp add: run_limit_def toy_defs main_loop.simps final_world_def)

lemma run_stop_returns:
  "run_stop = Some (Inr ((), the (final_world (the run_stop)), stop_trace))"
  by (simp add: run_stop_def toy_defs main_loop.simps final_world_def)

lemma run_crash_raises: "run_crash = Some (Inl (Env_crash, crash_trace))"
  by (simp add: run_crash_def toy_defs main_loop.simps)

lemma first_cycle_toy:
  "trace_of (cycle (toy None False) two_workers 1 0 [0, 1] (toy_world1, [])) = first_cycle_trace"
  by (simp add: toy_defs trace_of_def)

text \<open>The same for properties of the trace: \<open>Sq\<close> and \<open>Se\<close> describe the events that one
  pass adds when it returns and when it raises.\<close>

lemma pipeline_trace_rule:
  fixes C :: "('w, 'e, 'k, 'd, 's, 't) collaborators"
    and I :: "'t \<Rightarrow> ('e, 'k, 'd, 's, 't) event list \<Rightarrow> bool"
  assumes run: "serial_pipeline_plr C cfg mti mes w = Some res"
    and start: "post (startup C cfg (w, [])) (\<lambda>ls st. I ls (snd st)) (\<lambda>e tr. R (Inl (e, tr)))"
    and step: "\<And>ls st. post (cycle C cfg mti mes ls st)
        (\<lambda>a st'. ext (snd st) (snd st') (Sq ls a)) (\<lambda>e tr. ext (snd st) tr (Se ls e))"
    and cont: "\<And>ls tr a seg. I ls tr \<Longrightarrow> Sq ls a seg \<Longrightarrow> \<not> fst a \<Longrightarrow> I (snd a) (tr @ seg)"
    and brk: "\<And>ls tr a seg. I ls tr \<Longrightarrow> Sq ls a seg \<Longrightarrow> fst a \<Longrightarrow> F (tr @ seg)"
    and err: "\<And>ls tr e seg. I ls tr \<Longrightarrow> Se ls e seg \<Longrightarrow> R (Inl (e, tr @ seg))"
    and fin_ok: "\<And>tr w'. F tr \<Longrightarrow>
        R (Inr ((), w', tr @ [Ev (Call_hook ''after_run'') (Inr Ret_unit)]))"
    and fin_err: "\<And>tr e. F tr \<Longrightarrow> R (Inl (e, tr @ [Ev (Call_hook ''after_run'') (Inl e)]))"
  shows "R res"
proof (rule pipeline_rule[OF run, where I = "\<lambda>ls st. I ls (snd st)" and F = "\<lambda>st. F (snd st)"])
  show "post (startup C cfg (w, [])) (\<lambda>ls st. I ls (snd st)) (\<lambda>e tr. R (Inl (e, tr)))"
    by (rule start)
next
  fix ls :: 't and st :: "('w, 'e, 'k, 'd, 's, 't) pstate"
  assume inv: "I ls (snd st)"
  show "post (cycle C cfg mti mes ls st) (\<lambda>a st'. if fst a then F (snd st') else I (snd a) (snd st'))
      (\<lambda>e tr. R (Inl (e, tr)))"
  proof (rule post_mono[OF step[of ls st]])
    fix a and st' :: "('w, 'e, 'k, 'd, 's, 't) pstate"
    assume "ext (snd st) (snd st') (Sq ls a)"
    then obtain seg where "snd st' = snd st @ seg" "Sq ls a seg" by (auto simp: ext_def)
    with cont[OF inv, of a seg] brk[OF inv, of a seg]
    show "if fst a then F (snd st') else I (snd a) (snd st')" by simp
  next
    fix e and tr :: "('e, 'k, 'd, 's, 't) event list"
    assume "ext (snd st) tr (Se ls e)"
    then obtain seg where "tr = snd st @ seg" "Se ls e seg" by (auto simp: ext_def)
    with err[OF inv, of e seg] show "R (Inl (e, tr))" by simp
  qed
next
  fix st :: "('w, 'e, 'k, 'd, 's, 't) pstate"
  assume "F (snd st)"
  then show "post (invoke (Call_hook ''after_run'') (\<lambda>_. Ret_unit) (call_hook C ''after_run'') st)
      (\<lambda>a st'. R (Inr (a, st'))) (\<lambda>e tr. R (Inl (e, tr)))"
    by (intro post_invoke) (simp_all add: fin_ok fin_err)
qed

lemma run_zero_returns:
  "run_zero = Some (Inr ((), the (final_world (the run_zero)), limit_trace))"
  by (simp add: run_zero_def toy_defs main_loop.simps final_world_def)

section \<open>The level pool\<close>

lemma pool_first_append:
  "pool_first n tr \<Longrightarrow> \<forall>ev\<in>set seg. \<not> is_new_sampler ev \<Longrightarrow> pool_first n (tr @ seg)"
  by (auto simp: pool_first_def)

lemma startup_pool:
  "post (startup C cfg (w, [])) (\<lambda>ls st. pool_first (collector_env_num cfg) (snd st))
     (\<lambda>e tr. pool_first (collector_env_num cfg) tr)"
  unfolding phase_defs Let_def
  by (intro post_rules) (simp_all add: drawn_def assigned_def pool_first_def image_iff)

lemma cycle_no_new_sampler:
  "post (cycle C cfg mti mes ls st)
     (\<lambda>a st'. ext (snd st) (snd st') (\<lambda>seg. \<forall>ev\<in>set seg. \<not> is_new_sampler ev))
     (\<lambda>e tr. ext (snd st) tr (\<lambda>seg. \<forall>ev\<in>set seg. \<not> is_new_sampler ev))"
  unfolding phase_defs
  by (intro post_rules) (simp_all add: drawn_def assigned_def image_iff)

lemma pipeline_pool_first:
  assumes "serial_pipeline_plr C cfg mti mes w = Some res"
  shows "pool_first (collector_env_num cfg) (trace_of res)"
proof (rule pipeline_trace_rule[OF assms,
      where I = "\<lambda>ls tr. pool_first (collector_env_num cfg) tr"
        and F = "\<lambda>tr. pool_first (collector_env_num cfg) tr"
        and R = "\<lambda>res. pool_first (collector_env_num cfg) (trace_of res)"
        and Sq = "\<lambda>ls a seg. \<forall>ev\<in>set seg. \<not> is_new_sampler ev"
        and Se = "\<lambda>ls e seg. \<forall>ev\<in>set seg. \<not> is_new_sampler ev"])
qed (use startup_pool[of C cfg w] cycle_no_new_sampler[of C cfg mti mes] in
    \<open>simp_all add: trace_of_def pool_first_append\<close>)

text \<open>
  C6. \<open>generate_seeds(num_seeds, base_seed)\<close> is the list of the \<open>num_seeds\<close> values
  \<open>base_seed + i\<close>, in order, and in every run of the pipeline the sampler is built
  once, as the first call, over the 500 level ids 0 to 499, whatever the
  configuration and the limits are.
\<close>

theorem level_pool:
  assumes "serial_pipeline_plr C cfg max_train_iter max_env_step w = Some res"
  shows "length (generate_seeds num_seeds base_seed) = nat num_seeds \<and>
     (\<forall>i<nat num_seeds. generate_seeds num_seeds base_seed ! i = base_seed + int i) \<and>
     (\<exists>r rest. trace_of res =
          Ev (New_level_sampler (map int [0..<500]) (collector_env_num cfg)) r # rest \<and>
        (\<forall>ev\<in>set rest. \<not> is_new_sampler ev))"
  using pipeline_pool_first[OF assms]
  by (simp add: length_generate_seeds nth_generate_seeds generate_seeds_default pool_first_def)

theorem level_pool_witness:
  "length (generate_seeds 3 7) = 3 \<and> generate_seeds 3 7 ! 2 = 9 \<and>
   hd limit_trace = Ev (New_level_sampler (map int [0..<500]) 2) (Inr Ret_unit)"
proof -
  have run: "serial_pipeline_plr (toy None False) two_workers 1 0 toy_world0 =
      Some (Inr ((), the (final_world (the run_limit)), limit_trace))"
    using run_limit_returns by (simp add: run_limit_def)
  from level_pool[OF run, of 3 7] show ?thesis
    by (auto simp: trace_of_def two_workers_def limit_trace_def startup_trace_def)
qed

section \<open>The order of the calls in one pass\<close>

lemma cycle_sorted:
  "post (cycle C cfg mti mes ls st)
     (\<lambda>a st'. ext (snd st) (snd st') (\<lambda>seg. sorted (map (\<lambda>ev. rank (call_of ev)) seg)))
     (\<lambda>e tr. ext (snd st) tr (\<lambda>seg. sorted (map (\<lambda>ev. rank (call_of ev)) seg)))"
  unfolding phase_defs
  by (intro post_rules)
     (simp_all add: drawn_def assigned_def sorted_append o_def sorted_map_const)

lemma cycle_sample_after_update:
  "post (cycle C cfg mti mes ls st)
     (\<lambda>a st'. ext (snd st) (snd st') (\<lambda>seg. (\<exists>ev\<in>set seg. is_sample ev) \<longrightarrow>
        (\<exists>ti kw d sd.
           Ev (Collect ti ls kw) (Inr (Ret_data d)) \<in> set seg \<and>
           Ev (Default_preprocess_learn d (ignore_done cfg)) (Inr (Ret_stacked sd)) \<in> set seg \<and>
           Ev (Update_with_rollouts sd (collector_env_num cfg)) (Inr Ret_unit) \<in> set seg)))
     (\<lambda>e tr. ext (snd st) tr (\<lambda>seg. (\<exists>ev\<in>set seg. is_sample ev) \<longrightarrow>
        (\<exists>ti kw d sd.
           Ev (Collect ti ls kw) (Inr (Ret_data d)) \<in> set seg \<and>
           Ev (Default_preprocess_learn d (ignore_done cfg)) (Inr (Ret_stacked sd)) \<in> set seg \<and>
           Ev (Update_with_rollouts sd (collector_env_num cfg)) (Inr Ret_unit) \<in> set seg)))"
  unfolding phase_defs
  by (intro post_rules) (simp_all add: drawn_def assigned_def image_iff)

lemma rank_is_eval: "is_eval ev \<Longrightarrow> rank (call_of ev) = 2"
  by (cases ev rule: is_eval.cases) auto

lemma rank_is_collect: "is_collect ev \<Longrightarrow> rank (call_of ev) = 3"
  by (cases ev rule: is_collect.cases) auto

lemma rank_is_update: "is_update ev \<Longrightarrow> rank (call_of ev) = 6"
  by (cases ev rule: is_update.cases) auto

lemma rank_is_sample: "is_sample ev \<Longrightarrow> rank (call_of ev) = 7"
  by (cases ev rule: is_sample.cases) auto

lemma sorted_rank_before:
  assumes "sorted (map (\<lambda>ev. rank (call_of ev)) seg)" "i < length seg" "j < length seg"
    "rank (call_of (seg ! i)) < rank (call_of (seg ! j))"
  shows "i < j"
proof (rule ccontr)
  assume "\<not> i < j"
  then have "j \<le> i" by simp
  with assms(1,2) have "map (\<lambda>ev. rank (call_of ev)) seg ! j \<le> map (\<lambda>ev. rank (call_of ev)) seg ! i"
    by (intro sorted_nth_mono) auto
  with assms(2,3,4) show False by simp
qed

text \<open>
  C2. In every pass through the body of the loop, whether it completes, is stopped by
  the evaluator or ends in an exception, every call of \<open>evaluator.eval\<close> comes before
  every call of \<open>collector.collect\<close>, every call of \<open>update_with_rollouts\<close> comes before
  every call of \<open>sample\<close>, and when a \<open>sample\<close> call is made then the pass has called
  \<open>collect\<close> with the current level seeds and \<open>update_with_rollouts\<close> with the stacked
  form of the data that this \<open>collect\<close> returned.
\<close>

theorem cycle_order:
  "\<exists>seg. trace_of (cycle C cfg max_train_iter max_env_step level_seeds st) = snd st @ seg \<and>
     (\<forall>i j. i < length seg \<and> j < length seg \<and> is_eval (seg ! i) \<and> is_collect (seg ! j) \<longrightarrow> i < j) \<and>
     (\<forall>i j. i < length seg \<and> j < length seg \<and> is_update (seg ! i) \<and> is_sample (seg ! j) \<longrightarrow> i < j) \<and>
     ((\<exists>ev\<in>set seg. is_sample ev) \<longrightarrow>
        (\<exists>ti kw d sd.
           Ev (Collect ti level_seeds kw) (Inr (Ret_data d)) \<in> set seg \<and>
           Ev (Default_preprocess_learn d (ignore_done cfg)) (Inr (Ret_stacked sd)) \<in> set seg \<and>
           Ev (Update_with_rollouts sd (collector_env_num cfg)) (Inr Ret_unit) \<in> set seg))"
proof -
  let ?res = "cycle C cfg max_train_iter max_env_step level_seeds st"
  from post_traceD[OF cycle_sorted[of C cfg max_train_iter max_env_step level_seeds st]]
  obtain seg where seg: "trace_of ?res = snd st @ seg"
    and srt: "sorted (map (\<lambda>ev. rank (call_of ev)) seg)"
    by (auto simp: ext_def)
  from post_traceD[OF cycle_sample_after_update[of C cfg max_train_iter max_env_step level_seeds st]] seg
  have upd: "(\<exists>ev\<in>set seg. is_sample ev) \<longrightarrow>
        (\<exists>ti kw d sd.
           Ev (Collect ti level_seeds kw) (Inr (Ret_data d)) \<in> set seg \<and>
           Ev (Default_preprocess_learn d (ignore_done cfg)) (Inr (Ret_stacked sd)) \<in> set seg \<and>
           Ev (Update_with_rollouts sd (collector_env_num cfg)) (Inr Ret_unit) \<in> set seg)"
    by (simp add: ext_def)
  have "i < j" if "i < length seg" "j < length seg" "is_eval (seg ! i)" "is_collect (seg ! j)" for i j
    using sorted_rank_before[OF srt that(1,2)] rank_is_eval[OF that(3)] rank_is_collect[OF that(4)]
    by simp
  moreover have "i < j"
    if "i < length seg" "j < length seg" "is_update (seg ! i)" "is_sample (seg ! j)" for i j
    using sorted_rank_before[OF srt that(1,2)] rank_is_update[OF that(3)] rank_is_sample[OF that(4)]
    by simp
  ultimately show ?thesis using seg upd by blast
qed

theorem cycle_order_witness:
  "is_eval (first_cycle_trace ! 2) \<and> is_collect (first_cycle_trace ! 3) \<and> (2::nat) < 3 \<and>
   is_update (first_cycle_trace ! 6) \<and> is_sample (first_cycle_trace ! 7) \<and> (6::nat) < 7 \<and>
   Ev (Collect 0 [0, 1] ()) (Inr (Ret_data [0, 1])) \<in> set first_cycle_trace \<and>
   Ev (Update_with_rollouts [0, 1] 2) (Inr Ret_unit) \<in> set first_cycle_trace"
proof -
  from cycle_order[of "toy None False" two_workers 1 0 "[0, 1]" "(toy_world1, [])"]
  obtain seg where a: "trace_of (cycle (toy None False) two_workers 1 0 [0, 1] (toy_world1, [])) =
        snd (toy_world1, []) @ seg"
    and b: "\<forall>i j. i < length seg \<and> j < length seg \<and> is_eval (seg ! i) \<and> is_collect (seg ! j) \<longrightarrow> i < j"
    and c: "\<forall>i j. i < length seg \<and> j < length seg \<and> is_update (seg ! i) \<and> is_sample (seg ! j) \<longrightarrow> i < j"
    by blast
  from a have seg: "seg = first_cycle_trace"
    by (simp add: first_cycle_toy)
  have ev: "is_eval (first_cycle_trace ! 2)" "is_collect (first_cycle_trace ! 3)"
    "is_update (first_cycle_trace ! 6)" "is_sample (first_cycle_trace ! 7)"
    "length first_cycle_trace = 11"
    by (simp_all add: first_cycle_trace_def)
  from b[rule_format, of 2 3] c[rule_format, of 6 7] ev seg
  have "(2::nat) < 3" "(6::nat) < 7" by simp_all
  with ev show ?thesis
    by (simp add: first_cycle_trace_def)
qed

section \<open>Exceptions\<close>

lemma startup_raise:
  "post (startup C cfg (w, []))
     (\<lambda>ls st. \<forall>ev\<in>set (snd st). \<not> raised ev \<and> \<not> is_after_run ev)
     (\<lambda>e tr. tr \<noteq> [] \<and> raised_with e (last tr) \<and>
        (\<forall>ev\<in>set (butlast tr). \<not> raised ev \<and> \<not> is_after_run ev))"
  unfolding phase_defs Let_def
  by (intro post_rules) (simp_all add: drawn_def assigned_def image_iff butlast_append)

lemma cycle_raise:
  "post (cycle C cfg mti mes ls st)
     (\<lambda>a st'. ext (snd st) (snd st') (\<lambda>seg. \<forall>ev\<in>set seg. \<not> raised ev \<and> \<not> is_after_run ev))
     (\<lambda>e tr. ext (snd st) tr (\<lambda>seg. seg \<noteq> [] \<and> raised_with e (last seg) \<and>
        (\<forall>ev\<in>set (butlast seg). \<not> raised ev \<and> \<not> is_after_run ev)))"
  unfolding phase_defs
  by (intro post_rules) (simp_all add: drawn_def assigned_def image_iff butlast_append)

text \<open>
  C7. When the pipeline ends with an exception \<open>e\<close>, the last call it made is a call of a
  collaborator that raised this very \<open>e\<close>; no call before it raised (so no failed call
  was made again, and nothing was swallowed), and the \<open>after_run\<close> hook was not run.
  When the pipeline returns, no call has raised.
\<close>

theorem error_propagation:
  assumes "serial_pipeline_plr C cfg max_train_iter max_env_step w = Some res"
  shows "case res of
           Inl (e, tr) \<Rightarrow> tr \<noteq> [] \<and> raised_with e (last tr) \<and>
             (\<forall>ev\<in>set (butlast tr). \<not> raised ev \<and> \<not> is_after_run ev)
         | Inr (u, w', tr) \<Rightarrow> \<forall>ev\<in>set tr. \<not> raised ev"
proof (rule pipeline_trace_rule[OF assms,
      where I = "\<lambda>ls tr. \<forall>ev\<in>set tr. \<not> raised ev \<and> \<not> is_after_run ev"
        and F = "\<lambda>tr. \<forall>ev\<in>set tr. \<not> raised ev \<and> \<not> is_after_run ev"
        and Sq = "\<lambda>ls a seg. \<forall>ev\<in>set seg. \<not> raised ev \<and> \<not> is_after_run ev"
        and Se = "\<lambda>ls e seg. seg \<noteq> [] \<and> raised_with e (last seg) \<and>
          (\<forall>ev\<in>set (butlast seg). \<not> raised ev \<and> \<not> is_after_run ev)"])
qed (use startup_raise[of C cfg w] cycle_raise[of C cfg max_train_iter max_env_step] in
    \<open>auto simp: butlast_append\<close>)

theorem error_propagation_witness:
  "run_crash = Some (Inl (Env_crash, crash_trace)) \<and> crash_trace \<noteq> [] \<and>
   last crash_trace = Ev (Collect 0 [0, 1] ()) (Inl Env_crash) \<and>
   raised_with Env_crash (last crash_trace) \<and>
   list_all (\<lambda>ev. \<not> raised ev \<and> \<not> is_after_run ev) (butlast crash_trace)"
proof -
  have run: "serial_pipeline_plr (toy None True) two_workers 10 100 toy_world0 =
      Some (Inl (Env_crash, crash_trace))"
    using run_crash_raises by (simp add: run_crash_def)
  from error_propagation[OF run] run_crash_raises show ?thesis
    by (simp add: crash_trace_def startup_trace_def)
qed

section \<open>The stop signal of the evaluator\<close>

lemma startup_no_stop:
  "post (startup C cfg (w, []))
     (\<lambda>ls st. (\<forall>ev\<in>set (snd st). \<not> is_stop ev) \<and> snd st \<noteq> [] \<and> call_of (last (snd st)) = Env_reset)
     (\<lambda>e tr. \<forall>ev\<in>set tr. \<not> is_stop ev)"
  unfolding phase_defs Let_def
  by (intro post_rules) (simp_all add: drawn_def assigned_def image_iff)

lemma cycle_stop:
  "post (cycle C cfg mti mes ls st)
     (\<lambda>a st'. ext (snd st) (snd st') (\<lambda>seg.
        ((\<forall>ev\<in>set seg. \<not> is_stop ev) \<and> seg \<noteq> [] \<and> call_of (last seg) = Env_reset) \<or>
        (fst a \<and> (\<exists>kw ti ti2 es2. seg = stop_events kw ti ti2 es2))))
     (\<lambda>e tr. ext (snd st) tr (\<lambda>seg. \<forall>ev\<in>set seg. \<not> is_stop ev))"
  unfolding phase_defs
  by (intro post_rules) (simp_all add: drawn_def assigned_def stop_events_def image_iff)

text \<open>
  C4. When \<open>evaluator.eval\<close> returns with \<open>stop = True\<close>, the pass in which it does so
  consists of \<open>commander.step\<close>, \<open>should_eval\<close> and this \<open>eval\<close> only, the one call that
  follows is the \<open>after_run\<close> hook, and it is the first stop signal of the run: neither
  \<open>collect\<close> nor \<open>train\<close> is called in that pass or later.
\<close>

theorem evaluator_stop:
  fixes C :: "('w, 'e, 'k, 'd, 's, 't) collaborators"
  assumes "serial_pipeline_plr C cfg max_train_iter max_env_step w = Some res"
    and "\<exists>ev\<in>set (trace_of res). is_stop ev"
  shows "\<exists>pre kw ti ti2 es2 r.
     trace_of res = pre @ stop_events kw ti ti2 es2 @ [Ev (Call_hook ''after_run'') r] \<and>
     (\<forall>ev\<in>set pre. \<not> is_stop ev) \<and> pre \<noteq> [] \<and> call_of (last pre) = Env_reset \<and>
     (\<forall>ev\<in>set (stop_events kw ti ti2 es2 @ [Ev (Call_hook ''after_run'') r]).
        \<not> is_collect ev \<and> \<not> is_train ev)"
proof -
  let ?I = "\<lambda>tr. (\<forall>ev\<in>set tr. \<not> is_stop ev) \<and> tr \<noteq> [] \<and> call_of (last tr) = Env_reset"
  let ?F = "\<lambda>tr. (\<forall>ev\<in>set tr. \<not> is_stop ev) \<or>
     (\<exists>pre kw ti ti2 es2. tr = pre @ stop_events kw ti ti2 es2 \<and> ?I pre)"
  let ?R = "\<lambda>tr. (\<exists>ev\<in>set tr. is_stop ev) \<longrightarrow>
     (\<exists>pre kw ti ti2 es2 r. tr = pre @ stop_events kw ti ti2 es2 @ [Ev (Call_hook ''after_run'') r] \<and>
        ?I pre \<and>
        (\<forall>ev\<in>set (stop_events kw ti ti2 es2 @ [Ev (Call_hook ''after_run'') r]).
           \<not> is_collect ev \<and> \<not> is_train ev))"
  have "?R (trace_of res)"
  proof (rule pipeline_trace_rule[OF assms(1),
        where I = "\<lambda>ls. ?I" and F = ?F and R = "\<lambda>res. ?R (trace_of res)"
          and Sq = "\<lambda>ls a seg.
            ((\<forall>ev\<in>set seg. \<not> is_stop ev) \<and> seg \<noteq> [] \<and> call_of (last seg) = Env_reset) \<or>
            (fst a \<and> (\<exists>kw ti ti2 es2. seg = stop_events kw ti ti2 es2))"
          and Se = "\<lambda>ls e seg. \<forall>ev\<in>set seg. \<not> is_stop ev"])
    show "post (startup C cfg (w, [])) (\<lambda>ls st. ?I (snd st)) (\<lambda>e tr. ?R (trace_of (Inl (e, tr))))"
      by (rule post_mono[OF startup_no_stop]) (auto simp: trace_of_def)
  next
    fix ls :: 't and st :: "('w, 'e, 'k, 'd, 's, 't) pstate"
    show "post (cycle C cfg max_train_iter max_env_step ls st)
        (\<lambda>a st'. ext (snd st) (snd st')
           (\<lambda>seg. ((\<forall>ev\<in>set seg. \<not> is_stop ev) \<and> seg \<noteq> [] \<and> call_of (last seg) = Env_reset) \<or>
              (fst a \<and> (\<exists>kw ti ti2 es2. seg = stop_events kw ti ti2 es2))))
        (\<lambda>e tr. ext (snd st) tr (\<lambda>seg. \<forall>ev\<in>set seg. \<not> is_stop ev))"
      by (rule cycle_stop)
  next
    fix ls :: 't and tr seg :: "('e, 'k, 'd, 's, 't) event list" and a :: "bool \<times> 't"
    assume "?I tr" "((\<forall>ev\<in>set seg. \<not> is_stop ev) \<and> seg \<noteq> [] \<and> call_of (last seg) = Env_reset) \<or>
            (fst a \<and> (\<exists>kw ti ti2 es2. seg = stop_events kw ti ti2 es2))" "\<not> fst a"
    then show "?I (tr @ seg)" by auto
  next
    fix ls :: 't and tr seg :: "('e, 'k, 'd, 's, 't) event list" and a :: "bool \<times> 't"
    assume inv: "?I tr"
      and seg: "((\<forall>ev\<in>set seg. \<not> is_stop ev) \<and> seg \<noteq> [] \<and> call_of (last seg) = Env_reset) \<or>
            (fst a \<and> (\<exists>kw ti ti2 es2. seg = stop_events kw ti ti2 es2))"
      and "fst a"
    show "?F (tr @ seg)"
    proof (cases "\<forall>ev\<in>set seg. \<not> is_stop ev")
      case True
      with inv have "\<forall>ev\<in>set (tr @ seg). \<not> is_stop ev" by auto
      then show ?thesis by (rule disjI1)
    next
      case False
      with seg obtain kw ti ti2 es2 where "seg = stop_events kw ti ti2 es2" by auto
      with inv show ?thesis by blast
    qed
  next
    fix ls :: 't and tr seg :: "('e, 'k, 'd, 's, 't) event list" and e :: 'e
    assume "?I tr" "\<forall>ev\<in>set seg. \<not> is_stop ev"
    then show "?R (trace_of (Inl (e, tr @ seg)))" by (auto simp: trace_of_def)
  next
    fix tr :: "('e, 'k, 'd, 's, 't) event list" and w' :: 'w
    assume "?F tr"
    then show "?R (trace_of (Inr ((), w', tr @ [Ev (Call_hook ''after_run'') (Inr Ret_unit)])))"
      by (auto simp: trace_of_def stop_events_def)
  next
    fix tr :: "('e, 'k, 'd, 's, 't) event list" and e :: 'e
    assume "?F tr"
    then show "?R (trace_of (Inl (e, tr @ [Ev (Call_hook ''after_run'') (Inl e)])))"
      by (auto simp: trace_of_def stop_events_def)
  qed
  with assms(2) show ?thesis by blast
qed

theorem evaluator_stop_witness:
  "list_ex is_stop stop_trace \<and>
   drop 27 stop_trace = stop_events () 2 2 4 @ [Ev (Call_hook ''after_run'') (Inr Ret_unit)] \<and>
   list_all (\<lambda>ev. \<not> is_stop ev) (take 27 stop_trace) \<and>
   list_all (\<lambda>ev. \<not> is_collect ev \<and> \<not> is_train ev) (drop 27 stop_trace)"
proof -
  have run: "serial_pipeline_plr (toy (Some 2) False) two_workers 10 100 toy_world0 =
      Some (Inr ((), the (final_world (the run_stop)), stop_trace))"
    using run_stop_returns by (simp add: run_stop_def)
  have stop: "\<exists>ev\<in>set (trace_of (Inr ((), the (final_world (the run_stop)), stop_trace) ::
      (toy_world, toy_error, unit, int list, int list, int list, unit) presult)). is_stop ev"
    by (simp add: trace_of_def stop_trace_def)
  from evaluator_stop[OF run stop] obtain pre kw ti ti2 es2 r where
    "trace_of (Inr ((), the (final_world (the run_stop)), stop_trace) ::
      (toy_world, toy_error, unit, int list, int list, int list, unit) presult) =
       pre @ stop_events kw ti ti2 es2 @ [Ev (Call_hook ''after_run'') r]"
    by blast
  then have "stop_trace = pre @ stop_events kw ti ti2 es2 @ [Ev (Call_hook ''after_run'') r]"
    by (simp add: trace_of_def)
  then have "length stop_trace =
      length (pre @ stop_events kw ti ti2 es2 @ [Ev (Call_hook ''after_run'') r])"
    by (rule arg_cong)
  then have "length stop_trace = length pre + 4"
    by (simp add: stop_events_def)
  then show ?thesis
    by (simp add: stop_trace_def startup_trace_def first_cycle_trace_def stop_events_def)
qed

section \<open>The events of the passes that return\<close>

lemma startup_shape:
  "post (startup C cfg (w, []))
     (\<lambda>ls st. \<exists>seeds. ls = tensor C seeds \<and>
        snd st = startup_events (collector_env_num cfg) seeds \<and> length seeds = collector_env_num cfg)
     (\<lambda>e tr. True)"
  unfolding phase_defs Let_def
  by (intro post_rules) (simp_all add: startup_events_def assigned_def)

lemma cycle_shape:
  "post (cycle C cfg mti mes ls st)
     (\<lambda>a st'. ext (snd st) (snd st') (\<lambda>seg.
        (fst a \<and> snd a = ls \<and> (\<exists>kw ti ti2 es2. seg = stop_events kw ti ti2 es2)) \<or>
        (\<exists>seeds. length seeds = collector_env_num cfg \<and> snd a = tensor C seeds \<and>
         (\<exists>kw ti due ti2 es2 ti' d es sd.
            seg = cycle_events kw ti due ti2 es2 ti' ls d es (ignore_done cfg) sd
                    (collector_env_num cfg) seeds))))
     (\<lambda>e tr. ext (snd st) tr (\<lambda>seg. True))"
  unfolding phase_defs
  apply (intro post_rules)
                   apply (simp_all add: stop_events_def cycle_events_def assigned_def)
   apply blast+
  done

lemma learned_append: "learned tr \<or> learned seg \<Longrightarrow> learned (tr @ seg)"
  by (auto simp: learned_def)

lemma learned_cycle_events:
  "learned (cycle_events kw ti due ti2 es2 ti' ls d es ig sd n seeds)"
  by (simp add: learned_def cycle_events_def)

lemma stop_events_props:
  "\<exists>ev\<in>set (stop_events kw ti ti2 es2). is_stop ev"
  "filter is_commander_step (stop_events kw ti ti2 es2) = [Ev Commander_step (Inr (Ret_kwargs kw))]"
  by (simp_all add: stop_events_def)

lemma startup_events_props:
  "filter is_commander_step (startup_events n seeds) = []"
  "\<forall>ev\<in>set (startup_events n seeds). \<not> is_stop ev"
  by (auto simp: startup_events_def drawn_def assigned_def)

text \<open>
  C9. The two limits are tested at the end of a pass only: whatever \<open>max_train_iter\<close> and
  \<open>max_env_step\<close> are (0 included), a run that returns has called \<open>collect\<close>, \<open>train\<close> and
  \<open>update_with_rollouts\<close>, each with a normal return, unless the evaluator gave the stop
  signal in the first pass (the trace then holds one \<open>commander.step\<close> only).
\<close>

theorem first_pass_unguarded:
  fixes C :: "('w, 'e, 'k, 'd, 's, 't) collaborators"
  assumes "serial_pipeline_plr C cfg max_train_iter max_env_step w = Some (Inr (u, w', tr))"
  shows "learned tr \<or> ((\<exists>ev\<in>set tr. is_stop ev) \<and> length (filter is_commander_step tr) = 1)"
proof -
  let ?I = "\<lambda>tr :: ('e, 'k, 'd, 's, 't) event list.
      learned tr \<or> (filter is_commander_step tr = [] \<and> (\<forall>ev\<in>set tr. \<not> is_stop ev))"
  let ?F = "\<lambda>tr :: ('e, 'k, 'd, 's, 't) event list.
      learned tr \<or> ((\<exists>ev\<in>set tr. is_stop ev) \<and> length (filter is_commander_step tr) = 1)"
  let ?R = "\<lambda>res :: ('w, 'e, 'k, 'd, 's, 't, unit) presult.
      case res of Inl x \<Rightarrow> True | Inr (u, w', tr) \<Rightarrow> ?F tr"
  have "?R (Inr (u, w', tr))"
  proof (rule pipeline_trace_rule[OF assms,
        where I = "\<lambda>ls. ?I" and F = ?F and R = ?R
          and Sq = "\<lambda>ls a seg.
            (fst a \<and> snd a = ls \<and> (\<exists>kw ti ti2 es2. seg = stop_events kw ti ti2 es2)) \<or>
            (\<exists>seeds. length seeds = collector_env_num cfg \<and> snd a = tensor C seeds \<and>
             (\<exists>kw ti due ti2 es2 ti' d es sd.
                seg = cycle_events kw ti due ti2 es2 ti' ls d es (ignore_done cfg) sd
                        (collector_env_num cfg) seeds))"
          and Se = "\<lambda>ls e seg. True"])
    show "post (startup C cfg (w, [])) (\<lambda>ls st. ?I (snd st)) (\<lambda>e tr. ?R (Inl (e, tr)))"
      by (rule post_mono[OF startup_shape]) (auto simp: startup_events_props)
  next
    fix ls :: 't and st :: "('w, 'e, 'k, 'd, 's, 't) pstate"
    show "post (cycle C cfg max_train_iter max_env_step ls st)
        (\<lambda>a st'. ext (snd st) (snd st')
           (\<lambda>seg. (fst a \<and> snd a = ls \<and> (\<exists>kw ti ti2 es2. seg = stop_events kw ti ti2 es2)) \<or>
            (\<exists>seeds. length seeds = collector_env_num cfg \<and> snd a = tensor C seeds \<and>
             (\<exists>kw ti due ti2 es2 ti' d es sd.
                seg = cycle_events kw ti due ti2 es2 ti' ls d es (ignore_done cfg) sd
                        (collector_env_num cfg) seeds))))
        (\<lambda>e tr. ext (snd st) tr (\<lambda>seg. True))"
      by (rule cycle_shape)
  next
    fix ls :: 't and tr seg :: "('e, 'k, 'd, 's, 't) event list" and a :: "bool \<times> 't"
    assume "?I tr"
      and "(fst a \<and> snd a = ls \<and> (\<exists>kw ti ti2 es2. seg = stop_events kw ti ti2 es2)) \<or>
            (\<exists>seeds. length seeds = collector_env_num cfg \<and> snd a = tensor C seeds \<and>
             (\<exists>kw ti due ti2 es2 ti' d es sd.
                seg = cycle_events kw ti due ti2 es2 ti' ls d es (ignore_done cfg) sd
                        (collector_env_num cfg) seeds))"
      and "\<not> fst a"
    then have "learned seg" by (auto simp: learned_cycle_events)
    then show "?I (tr @ seg)" by (simp add: learned_append)
  next
    fix ls :: 't and tr seg :: "('e, 'k, 'd, 's, 't) event list" and a :: "bool \<times> 't"
    assume inv: "?I tr"
      and seg: "(fst a \<and> snd a = ls \<and> (\<exists>kw ti ti2 es2. seg = stop_events kw ti ti2 es2)) \<or>
            (\<exists>seeds. length seeds = collector_env_num cfg \<and> snd a = tensor C seeds \<and>
             (\<exists>kw ti due ti2 es2 ti' d es sd.
                seg = cycle_events kw ti due ti2 es2 ti' ls d es (ignore_done cfg) sd
                        (collector_env_num cfg) seeds))"
    show "?F (tr @ seg)"
    proof (cases "learned tr \<or> learned seg")
      case True
      then show ?thesis by (simp add: learned_append)
    next
      case False
      with seg obtain kw ti ti2 es2 where "seg = stop_events kw ti ti2 es2"
        by (auto simp: learned_cycle_events)
      moreover from False inv have "filter is_commander_step tr = []" by simp
      ultimately show ?thesis using stop_events_props(1)[of kw ti ti2 es2]
        by (auto simp: stop_events_props(2))
    qed
  next
    fix tr :: "('e, 'k, 'd, 's, 't) event list" and w' :: 'w
    assume "?F tr"
    then show "?R (Inr ((), w', tr @ [Ev (Call_hook ''after_run'') (Inr Ret_unit)]))"
      by (auto simp: learned_append)
  qed simp_all
  then show ?thesis by simp
qed

theorem first_pass_unguarded_witness:
  "run_zero = Some (Inr ((), the (final_world (the run_zero)), limit_trace)) \<and> learned limit_trace"
proof -
  have run: "serial_pipeline_plr (toy None False) two_workers 0 0 toy_world0 =
      Some (Inr ((), the (final_world (the run_zero)), limit_trace))"
    using run_zero_returns by (simp add: run_zero_def)
  have "\<not> (\<exists>ev\<in>set limit_trace. is_stop ev)"
    by (simp add: limit_trace_def startup_trace_def first_cycle_trace_def)
  with first_pass_unguarded[OF run] run_zero_returns show ?thesis by blast
qed

section \<open>The last assignment of a run\<close>

lemma cycle_events_tail:
  "cycle_events kw ti due ti2 es2 ti' ls d es ig sd n seeds =
     ([Ev Commander_step (Inr (Ret_kwargs kw)), Ev (Should_eval ti) (Inr (Ret_bool due))] @
      (if due then [Ev (Eval ti2 es2) (Inr (Ret_stop False))] else []) @
      [Ev (Collect ti' ls kw) (Inr (Ret_data d)), Ev (Train d es) (Inr Ret_unit),
       Ev (Default_preprocess_learn d ig) (Inr (Ret_stacked sd))]) @
     Ev (Update_with_rollouts sd n) (Inr Ret_unit) # drawn None seeds @ assigned seeds"
  by (simp add: cycle_events_def)

lemma drawn_assigned_props:
  "\<forall>ev\<in>set (drawn strategy seeds @ assigned seeds @ [Ev (Call_hook h) r]).
     \<not> is_collect ev \<and> \<not> is_update ev"
  by (auto simp: drawn_def assigned_def)

text \<open>
  C10. A run that returns without a stop signal of the evaluator has left the loop on
  one of the two limits, and its trace ends with the \<open>update_with_rollouts\<close> of the last
  pass, as many weighted \<open>sample\<close> calls as there are workers, \<open>collector_env.seed\<close>
  with the level ids these calls returned, \<open>collector_env.reset\<close>, and the \<open>after_run\<close>
  hook: the last assignment is drawn and installed, and neither \<open>collect\<close> nor
  \<open>update_with_rollouts\<close> is called after it.
\<close>

theorem final_reseed_unused:
  fixes C :: "('w, 'e, 'k, 'd, 's, 't) collaborators"
  assumes "serial_pipeline_plr C cfg max_train_iter max_env_step w = Some (Inr (u, w', tr))"
    and "\<forall>ev\<in>set tr. \<not> is_stop ev"
  shows "\<exists>pre sd seeds.
     tr = pre @ Ev (Update_with_rollouts sd (collector_env_num cfg)) (Inr Ret_unit) #
            drawn None seeds @ assigned seeds @ [Ev (Call_hook ''after_run'') (Inr Ret_unit)] \<and>
     length seeds = collector_env_num cfg \<and>
     (\<forall>ev\<in>set (drawn None seeds @ assigned seeds @ [Ev (Call_hook ''after_run'') (Inr Ret_unit)]).
        \<not> is_collect ev \<and> \<not> is_update ev)"
proof -
  let ?reseeded = "\<lambda>tr :: ('e, 'k, 'd, 's, 't) event list. \<exists>pre sd seeds.
      tr = pre @ Ev (Update_with_rollouts sd (collector_env_num cfg)) (Inr Ret_unit) #
             drawn None seeds @ assigned seeds \<and>
      length seeds = collector_env_num cfg"
  let ?F = "\<lambda>tr :: ('e, 'k, 'd, 's, 't) event list. (\<exists>ev\<in>set tr. is_stop ev) \<or> ?reseeded tr"
  let ?R = "\<lambda>res :: ('w, 'e, 'k, 'd, 's, 't, unit) presult.
      case res of Inl x \<Rightarrow> True
      | Inr (u, w', tr) \<Rightarrow> (\<exists>ev\<in>set tr. is_stop ev) \<or>
          (\<exists>pre sd seeds.
             tr = pre @ Ev (Update_with_rollouts sd (collector_env_num cfg)) (Inr Ret_unit) #
                    drawn None seeds @ assigned seeds @
                    [Ev (Call_hook ''after_run'') (Inr Ret_unit)] \<and>
             length seeds = collector_env_num cfg)"
  have "?R (Inr (u, w', tr))"
  proof (rule pipeline_trace_rule[OF assms(1),
        where I = "\<lambda>ls tr. True" and F = ?F and R = ?R
          and Sq = "\<lambda>ls a seg.
            (fst a \<and> snd a = ls \<and> (\<exists>kw ti ti2 es2. seg = stop_events kw ti ti2 es2)) \<or>
            (\<exists>seeds. length seeds = collector_env_num cfg \<and> snd a = tensor C seeds \<and>
             (\<exists>kw ti due ti2 es2 ti' d es sd.
                seg = cycle_events kw ti due ti2 es2 ti' ls d es (ignore_done cfg) sd
                        (collector_env_num cfg) seeds))"
          and Se = "\<lambda>ls e seg. True"])
    show "post (startup C cfg (w, [])) (\<lambda>ls st. True) (\<lambda>e tr. ?R (Inl (e, tr)))"
      by (rule post_mono[OF startup_shape]) simp_all
  next
    fix ls :: 't and st :: "('w, 'e, 'k, 'd, 's, 't) pstate"
    show "post (cycle C cfg max_train_iter max_env_step ls st)
        (\<lambda>a st'. ext (snd st) (snd st')
           (\<lambda>seg. (fst a \<and> snd a = ls \<and> (\<exists>kw ti ti2 es2. seg = stop_events kw ti ti2 es2)) \<or>
            (\<exists>seeds. length seeds = collector_env_num cfg \<and> snd a = tensor C seeds \<and>
             (\<exists>kw ti due ti2 es2 ti' d es sd.
                seg = cycle_events kw ti due ti2 es2 ti' ls d es (ignore_done cfg) sd
                        (collector_env_num cfg) seeds))))
        (\<lambda>e tr. ext (snd st) tr (\<lambda>seg. True))"
      by (rule cycle_shape)
  next
    fix ls :: 't and tr seg :: "('e, 'k, 'd, 's, 't) event list" and a :: "bool \<times> 't"
    assume seg: "(fst a \<and> snd a = ls \<and> (\<exists>kw ti ti2 es2. seg = stop_events kw ti ti2 es2)) \<or>
            (\<exists>seeds. length seeds = collector_env_num cfg \<and> snd a = tensor C seeds \<and>
             (\<exists>kw ti due ti2 es2 ti' d es sd.
                seg = cycle_events kw ti due ti2 es2 ti' ls d es (ignore_done cfg) sd
                        (collector_env_num cfg) seeds))"
    show "?F (tr @ seg)"
    proof (cases "\<exists>kw ti ti2 es2. seg = stop_events kw ti ti2 es2")
      case True
      then show ?thesis using stop_events_props(1) by fastforce
    next
      case False
      with seg obtain seeds kw ti due ti2 es2 ti' d es sd where
        len: "length seeds = collector_env_num cfg" and
        "seg = cycle_events kw ti due ti2 es2 ti' ls d es (ignore_done cfg) sd
                        (collector_env_num cfg) seeds"
        by blast
      then have "tr @ seg =
          (tr @ [Ev Commander_step (Inr (Ret_kwargs kw)), Ev (Should_eval ti) (Inr (Ret_bool due))] @
            (if due then [Ev (Eval ti2 es2) (Inr (Ret_stop False))] else []) @
            [Ev (Collect ti' ls kw) (Inr (Ret_data d)), Ev (Train d es) (Inr Ret_unit),
             Ev (Default_preprocess_learn d (ignore_done cfg)) (Inr (Ret_stacked sd))]) @
          Ev (Update_with_rollouts sd (collector_env_num cfg)) (Inr Ret_unit) #
            drawn None seeds @ assigned seeds"
        by (simp add: cycle_events_tail)
      with len have "?reseeded (tr @ seg)" by blast
      then show ?thesis by (rule disjI2)
    qed
  next
    fix tr :: "('e, 'k, 'd, 's, 't) event list" and w' :: 'w
    assume "?F tr"
    then show "?R (Inr ((), w', tr @ [Ev (Call_hook ''after_run'') (Inr Ret_unit)]))"
      by auto
  qed simp_all
  with assms(2) show ?thesis
    using drawn_assigned_props by fastforce
qed

theorem final_reseed_unused_witness:
  "\<not> list_ex is_stop limit_trace \<and>
   drop 12 limit_trace =
     Ev (Update_with_rollouts [0, 1] 2) (Inr Ret_unit) # drawn None [0, 0] @ assigned [0, 0] @
     [Ev (Call_hook ''after_run'') (Inr Ret_unit)]"
proof -
  have run: "serial_pipeline_plr (toy None False) two_workers 1 0 toy_world0 =
      Some (Inr ((), the (final_world (the run_limit)), limit_trace))"
    using run_limit_returns by (simp add: run_limit_def)
  have no_stop: "\<forall>ev\<in>set limit_trace. \<not> is_stop ev"
    by (simp add: limit_trace_def startup_trace_def first_cycle_trace_def)
  from final_reseed_unused[OF run no_stop] obtain pre sd seeds where
    "limit_trace = pre @ Ev (Update_with_rollouts sd (collector_env_num two_workers)) (Inr Ret_unit) #
            drawn None seeds @ assigned seeds @ [Ev (Call_hook ''after_run'') (Inr Ret_unit)]"
    "length seeds = collector_env_num two_workers"
    by blast
  then have "length seeds = 2" by (simp add: two_workers_def)
  then show ?thesis
    by (simp add: limit_trace_def startup_trace_def first_cycle_trace_def drawn_def assigned_def)
qed

section \<open>The levels that the sampler has returned\<close>

lemma returned_levels_simps [simp]:
  "returned_levels [] = []"
  "returned_levels (ev # tr) = level_of ev @ returned_levels tr"
  "returned_levels (xs @ ys) = returned_levels xs @ returned_levels ys"
  by (simp_all add: returned_levels_def)

lemma returned_levels_drawn [simp]: "returned_levels (drawn strategy seeds) = seeds"
  by (induction seeds) (simp_all add: drawn_def)

lemma last_n_exact [simp]: "length xs = n \<Longrightarrow> last_n n (acc @ xs) = xs"
  by (simp add: last_n_def)

lemma last_n_all [simp]: "length xs = n \<Longrightarrow> last_n n xs = xs"
  by (simp add: last_n_def)

section \<open>The seeds of the environments\<close>

lemma follows_append:
  "follows tn n acc (xs @ ys) =
     (follows tn n acc xs \<and> follows tn n (acc @ returned_levels xs) ys)"
  by (induction xs arbitrary: acc) auto

lemma follows_drawn_append [simp]:
  "follows tn n acc (drawn strategy seeds @ ys) = follows tn n (acc @ seeds) ys"
  by (induction seeds arbitrary: acc) (simp_all add: drawn_def)

lemma follows_drawn [simp]: "follows tn n acc (drawn strategy seeds)"
  using follows_drawn_append[of tn n acc strategy seeds "[]"] by simp

lemma reset_next_drawn_append [simp]:
  "reset_next (drawn strategy seeds @ ys) = reset_next ys"
  by (induction seeds) (simp_all add: drawn_def)

lemma reset_next_append: "reset_next xs \<Longrightarrow> reset_next ys \<Longrightarrow> reset_next (xs @ ys)"
  by (induction xs) (auto split: list.splits)

lemma follows_nth:
  "follows tn n acc tr \<Longrightarrow> k < length tr \<Longrightarrow>
     (case call_of (tr ! k) of
        Env_seed xs \<Rightarrow> length xs = n \<and> xs = last_n n (acc @ returned_levels (take k tr))
      | Collect ti ls kw \<Rightarrow>
          n \<le> length (acc @ returned_levels (take k tr)) \<and>
          ls = tn (last_n n (acc @ returned_levels (take k tr)))
      | _ \<Rightarrow> True)"
proof (induction tr arbitrary: acc k)
  case Nil
  then show ?case by simp
next
  case (Cons ev tr)
  show ?case
  proof (cases k)
    case 0
    with Cons.prems show ?thesis by (simp split: call.splits)
  next
    case (Suc j)
    with Cons.prems have "follows tn n (acc @ level_of ev) tr" "j < length tr" by simp_all
    from Cons.IH[OF this] Suc show ?thesis by (auto split: call.splits)
  qed
qed

lemma reset_next_nth:
  "reset_next tr \<Longrightarrow> k < length tr \<Longrightarrow> seeded (tr ! k) \<Longrightarrow>
     Suc k < length tr \<and> call_of (tr ! Suc k) = Env_reset"
proof (induction tr arbitrary: k)
  case Nil
  then show ?case by simp
next
  case (Cons ev tr)
  show ?case
  proof (cases k)
    case 0
    with Cons.prems show ?thesis by (auto split: list.splits)
  next
    case (Suc j)
    with Cons.prems have "reset_next tr" "j < length tr" "seeded (tr ! j)" by simp_all
    from Cons.IH[OF this] Suc show ?thesis by simp
  qed
qed

lemma round_installed_append: "round_installed n tr \<Longrightarrow> round_installed n (tr @ seg)"
  unfolding round_installed_def
proof (erule disjE)
  assume "list_ex raised (take (n + 2) tr)"
  then have "list_ex raised (take (n + 2) (tr @ seg))" by (auto simp: list_ex_iff)
  then show "list_ex raised (take (n + 2) (tr @ seg)) \<or>
      (\<exists>strategy seeds rest. length seeds = n \<and>
         tr @ seg = drawn strategy seeds @ assigned seeds @ rest)" ..
next
  assume "\<exists>strategy seeds rest. length seeds = n \<and>
      tr = drawn strategy seeds @ assigned seeds @ rest"
  then obtain strategy seeds rest where "length seeds = n"
    "tr = drawn strategy seeds @ assigned seeds @ rest" by blast
  then have "length seeds = n \<and> tr @ seg = drawn strategy seeds @ assigned seeds @ (rest @ seg)"
    by simp
  then show "list_ex raised (take (n + 2) (tr @ seg)) \<or>
      (\<exists>strategy seeds rest. length seeds = n \<and>
         tr @ seg = drawn strategy seeds @ assigned seeds @ rest)" by blast
qed

lemma installs_append: "installs n xs \<Longrightarrow> installs n ys \<Longrightarrow> installs n (xs @ ys)"
  by (induction xs) (auto simp: round_installed_append)

lemma installs_drawn_append [simp]: "installs n (drawn strategy seeds @ tr) = installs n tr"
  by (induction seeds) (simp_all add: drawn_def)

lemma round_installed_full [simp]:
  "length seeds = n \<Longrightarrow>
   round_installed n (drawn strategy seeds @
     Ev (Env_seed seeds) (Inr Ret_unit) # Ev Env_reset (Inr Ret_unit) # rest)"
  unfolding round_installed_def
  by (intro disjI2 exI[of _ strategy] exI[of _ seeds] exI[of _ rest]) (simp add: assigned_def)

lemma round_installed_raise:
  assumes "raised ev" and "length pre < n + 2"
  shows "round_installed n (pre @ ev # rest)"
proof -
  from assms(2) obtain k where "n + 2 - length pre = Suc k" by (cases "n + 2 - length pre") auto
  then have "ev \<in> set (take (n + 2) (pre @ ev # rest))" by simp
  with assms(1) show ?thesis by (auto simp: round_installed_def list_ex_iff)
qed

lemma round_installed_raise_draw [simp]:
  "length seeds < n \<Longrightarrow> round_installed n (drawn strategy seeds @ [Ev (Sample strategy) (Inl e)])"
  by (rule round_installed_raise) (simp_all add: drawn_def)

lemma round_installed_raise_seed [simp]:
  "length seeds = n \<Longrightarrow> round_installed n (drawn strategy seeds @ [Ev (Env_seed seeds) (Inl e)])"
  by (rule round_installed_raise) (simp_all add: drawn_def)

lemma round_installed_raise_reset [simp]:
  "length seeds = n \<Longrightarrow>
   round_installed n (drawn strategy seeds @
     [Ev (Env_seed seeds) (Inr Ret_unit), Ev Env_reset (Inl e)])"
  using round_installed_raise[of "Ev Env_reset (Inl e)"
      "drawn strategy seeds @ [Ev (Env_seed seeds) (Inr Ret_unit)]" n "[]"]
  by (simp add: drawn_def)

lemma installs_nth:
  "installs n tr \<Longrightarrow> k < length tr \<Longrightarrow> starts_round (tr ! k) \<Longrightarrow>
     round_installed n (drop (Suc k) tr)"
proof (induction tr arbitrary: k)
  case Nil
  then show ?case by simp
next
  case (Cons ev tr)
  show ?case
  proof (cases k)
    case 0
    with Cons.prems show ?thesis by simp
  next
    case (Suc j)
    with Cons.prems have "installs n tr" "j < length tr" "starts_round (tr ! j)" by simp_all
    from Cons.IH[OF this] Suc show ?thesis by simp
  qed
qed

lemma startup_follows:
  "post (startup C cfg (w, []))
     (\<lambda>ls st. follows (tensor C) (collector_env_num cfg) [] (snd st) \<and> reset_next (snd st) \<and>
        installs (collector_env_num cfg) (snd st) \<and>
        collector_env_num cfg \<le> length (returned_levels (snd st)) \<and>
        ls = tensor C (last_n (collector_env_num cfg) (returned_levels (snd st))))
     (\<lambda>e tr. follows (tensor C) (collector_env_num cfg) [] tr \<and> reset_next tr \<and>
        installs (collector_env_num cfg) tr)"
  unfolding phase_defs Let_def
  by (intro post_rules) (simp_all add: assigned_def)

lemma cycle_follows:
  "post (cycle C cfg mti mes ls st)
     (\<lambda>a st'. ext (snd st) (snd st') (\<lambda>seg. reset_next seg \<and>
        installs (collector_env_num cfg) seg \<and>
        (\<forall>acc. collector_env_num cfg \<le> length acc \<and>
             ls = tensor C (last_n (collector_env_num cfg) acc) \<longrightarrow>
           follows (tensor C) (collector_env_num cfg) acc seg \<and>
           snd a = tensor C (last_n (collector_env_num cfg) (acc @ returned_levels seg)))))
     (\<lambda>e tr. ext (snd st) tr (\<lambda>seg. reset_next seg \<and>
        installs (collector_env_num cfg) seg \<and>
        (\<forall>acc. collector_env_num cfg \<le> length acc \<and>
             ls = tensor C (last_n (collector_env_num cfg) acc) \<longrightarrow>
           follows (tensor C) (collector_env_num cfg) acc seg)))"
  unfolding phase_defs
  by (intro post_rules) (auto simp: assigned_def)

lemma pipeline_follows:
  fixes C :: "('w, 'e, 'k, 'd, 's, 't) collaborators"
  assumes "serial_pipeline_plr C cfg mti mes w = Some res"
  shows "follows (tensor C) (collector_env_num cfg) [] (trace_of res) \<and>
     reset_next (trace_of res) \<and> installs (collector_env_num cfg) (trace_of res)"
proof (rule pipeline_trace_rule[OF assms,
      where I = "\<lambda>ls tr. follows (tensor C) (collector_env_num cfg) [] tr \<and> reset_next tr \<and>
          installs (collector_env_num cfg) tr \<and>
          collector_env_num cfg \<le> length (returned_levels tr) \<and>
          ls = tensor C (last_n (collector_env_num cfg) (returned_levels tr))"
        and F = "\<lambda>tr. follows (tensor C) (collector_env_num cfg) [] tr \<and> reset_next tr \<and>
          installs (collector_env_num cfg) tr"
        and R = "\<lambda>res. follows (tensor C) (collector_env_num cfg) [] (trace_of res) \<and>
          reset_next (trace_of res) \<and> installs (collector_env_num cfg) (trace_of res)"
        and Sq = "\<lambda>ls a seg. reset_next seg \<and> installs (collector_env_num cfg) seg \<and>
          (\<forall>acc. collector_env_num cfg \<le> length acc \<and>
               ls = tensor C (last_n (collector_env_num cfg) acc) \<longrightarrow>
             follows (tensor C) (collector_env_num cfg) acc seg \<and>
             snd a = tensor C (last_n (collector_env_num cfg) (acc @ returned_levels seg)))"
        and Se = "\<lambda>ls e seg. reset_next seg \<and> installs (collector_env_num cfg) seg \<and>
          (\<forall>acc. collector_env_num cfg \<le> length acc \<and>
               ls = tensor C (last_n (collector_env_num cfg) acc) \<longrightarrow>
             follows (tensor C) (collector_env_num cfg) acc seg)"])
  show "post (startup C cfg (w, []))
      (\<lambda>ls st. follows (tensor C) (collector_env_num cfg) [] (snd st) \<and> reset_next (snd st) \<and>
         installs (collector_env_num cfg) (snd st) \<and>
         collector_env_num cfg \<le> length (returned_levels (snd st)) \<and>
         ls = tensor C (last_n (collector_env_num cfg) (returned_levels (snd st))))
      (\<lambda>e tr. follows (tensor C) (collector_env_num cfg) [] (trace_of (Inl (e, tr))) \<and>
         reset_next (trace_of (Inl (e, tr))) \<and>
         installs (collector_env_num cfg) (trace_of (Inl (e, tr))))"
    using startup_follows[of C cfg w] by (simp add: trace_of_def)
next
  fix ls :: 't and st :: "('w, 'e, 'k, 'd, 's, 't) pstate"
  show "post (cycle C cfg mti mes ls st)
      (\<lambda>a st'. ext (snd st) (snd st') (\<lambda>seg. reset_next seg \<and>
         installs (collector_env_num cfg) seg \<and>
         (\<forall>acc. collector_env_num cfg \<le> length acc \<and>
              ls = tensor C (last_n (collector_env_num cfg) acc) \<longrightarrow>
            follows (tensor C) (collector_env_num cfg) acc seg \<and>
            snd a = tensor C (last_n (collector_env_num cfg) (acc @ returned_levels seg)))))
      (\<lambda>e tr. ext (snd st) tr (\<lambda>seg. reset_next seg \<and>
         installs (collector_env_num cfg) seg \<and>
         (\<forall>acc. collector_env_num cfg \<le> length acc \<and>
              ls = tensor C (last_n (collector_env_num cfg) acc) \<longrightarrow>
            follows (tensor C) (collector_env_num cfg) acc seg)))"
    by (rule cycle_follows)
qed (auto simp: trace_of_def follows_append reset_next_append installs_append)

text \<open>
  C5 (as amended). In every run, after the \<open>before_run\<close> hook and after every
  \<open>update_with_rollouts\<close> that returns, an assignment round follows at once: as many
  draws as there are collector environments, \<open>collector_env.seed\<close> with the level ids
  drawn and \<open>collector_env.reset\<close>, unless one of these calls raises. Every
  \<open>collector_env.seed\<close> is called with exactly \<open>collector_env_num\<close> level ids (one for
  each environment, not necessarily distinct), which are the level ids that the sampler
  returned last, in the order in which it returned them; a \<open>collector_env.seed\<close> that
  returns is followed at once by \<open>collector_env.reset\<close>; and every \<open>collect\<close> is called
  with \<open>torch.Tensor\<close> of the \<open>collector_env_num\<close> level ids that the sampler returned
  last. The calls are those from line 65 on: \<open>collector_env.seed(cfg.seed)\<close> of line 63
  comes before the first round.
\<close>

theorem seeds_follow_sampler:
  fixes C :: "('w, 'e, 'k, 'd, 's, 't) collaborators"
  assumes "serial_pipeline_plr C cfg max_train_iter max_env_step w = Some res"
  shows "\<forall>n<length (trace_of res).
     (starts_round (trace_of res ! n) \<longrightarrow>
        list_ex raised (take (collector_env_num cfg + 2) (drop (Suc n) (trace_of res))) \<or>
        (\<exists>strategy seeds rest. length seeds = collector_env_num cfg \<and>
           drop (Suc n) (trace_of res) = drawn strategy seeds @ assigned seeds @ rest)) \<and>
     (\<forall>xs r. trace_of res ! n = Ev (Env_seed xs) r \<longrightarrow>
        length xs = collector_env_num cfg \<and>
        xs = last_n (collector_env_num cfg) (returned_levels (take n (trace_of res)))) \<and>
     (\<forall>ti ls kw r. trace_of res ! n = Ev (Collect ti ls kw) r \<longrightarrow>
        collector_env_num cfg \<le> length (returned_levels (take n (trace_of res))) \<and>
        ls = tensor C (last_n (collector_env_num cfg) (returned_levels (take n (trace_of res))))) \<and>
     (seeded (trace_of res ! n) \<longrightarrow>
        Suc n < length (trace_of res) \<and> call_of (trace_of res ! Suc n) = Env_reset)"
proof (intro allI impI)
  fix n
  assume n: "n < length (trace_of res)"
  from pipeline_follows[OF assms]
  have f: "follows (tensor C) (collector_env_num cfg) [] (trace_of res)"
    and r: "reset_next (trace_of res)"
    and i: "installs (collector_env_num cfg) (trace_of res)"
    by simp_all
  have 1: "starts_round (trace_of res ! n) \<longrightarrow>
        list_ex raised (take (collector_env_num cfg + 2) (drop (Suc n) (trace_of res))) \<or>
        (\<exists>strategy seeds rest. length seeds = collector_env_num cfg \<and>
           drop (Suc n) (trace_of res) = drawn strategy seeds @ assigned seeds @ rest)"
    using installs_nth[OF i n] by (simp add: round_installed_def)
  from follows_nth[OF f n] reset_next_nth[OF r n]
  have "(\<forall>xs r. trace_of res ! n = Ev (Env_seed xs) r \<longrightarrow>
        length xs = collector_env_num cfg \<and>
        xs = last_n (collector_env_num cfg) (returned_levels (take n (trace_of res)))) \<and>
     (\<forall>ti ls kw r. trace_of res ! n = Ev (Collect ti ls kw) r \<longrightarrow>
        collector_env_num cfg \<le> length (returned_levels (take n (trace_of res))) \<and>
        ls = tensor C (last_n (collector_env_num cfg) (returned_levels (take n (trace_of res))))) \<and>
     (seeded (trace_of res ! n) \<longrightarrow>
        Suc n < length (trace_of res) \<and> call_of (trace_of res ! Suc n) = Env_reset)"
    by auto
  with 1 show "(starts_round (trace_of res ! n) \<longrightarrow>
        list_ex raised (take (collector_env_num cfg + 2) (drop (Suc n) (trace_of res))) \<or>
        (\<exists>strategy seeds rest. length seeds = collector_env_num cfg \<and>
           drop (Suc n) (trace_of res) = drawn strategy seeds @ assigned seeds @ rest)) \<and>
     (\<forall>xs r. trace_of res ! n = Ev (Env_seed xs) r \<longrightarrow>
        length xs = collector_env_num cfg \<and>
        xs = last_n (collector_env_num cfg) (returned_levels (take n (trace_of res)))) \<and>
     (\<forall>ti ls kw r. trace_of res ! n = Ev (Collect ti ls kw) r \<longrightarrow>
        collector_env_num cfg \<le> length (returned_levels (take n (trace_of res))) \<and>
        ls = tensor C (last_n (collector_env_num cfg) (returned_levels (take n (trace_of res))))) \<and>
     (seeded (trace_of res ! n) \<longrightarrow>
        Suc n < length (trace_of res) \<and> call_of (trace_of res ! Suc n) = Env_reset)"
    by blast
qed

theorem seeds_follow_sampler_witness:
  "starts_round (limit_trace ! 12) \<and> \<not> list_ex raised limit_trace \<and>
   take 4 (drop 13 limit_trace) = drawn None [0, 0] @ assigned [0, 0] \<and>
   limit_trace ! 15 = Ev (Env_seed [0, 0]) (Inr Ret_unit) \<and>
   last_n 2 (returned_levels (take 15 limit_trace)) = [0, 0] \<and>
   limit_trace ! 9 = Ev (Collect 0 [0, 1] ()) (Inr (Ret_data [0, 1])) \<and>
   last_n 2 (returned_levels (take 9 limit_trace)) = [0, 1] \<and>
   call_of (limit_trace ! 16) = Env_reset"
proof -
  have run: "serial_pipeline_plr (toy None False) two_workers 1 0 toy_world0 =
      Some (Inr ((), the (final_world (the run_limit)), limit_trace))"
    using run_limit_returns by (simp add: run_limit_def)
  have tr: "trace_of (Inr ((), the (final_world (the run_limit)), limit_trace) ::
      (toy_world, toy_error, unit, int list, int list, int list, unit) presult) = limit_trace"
    by (simp add: trace_of_def)
  have at: "limit_trace ! 15 = Ev (Env_seed [0, 0]) (Inr Ret_unit)" "15 < length limit_trace"
    by (simp_all add: limit_trace_def startup_trace_def first_cycle_trace_def)
  from seeds_follow_sampler[OF run] at have
    "[0, 0] = last_n (collector_env_num two_workers) (returned_levels (take 15 limit_trace))"
    unfolding tr by blast
  then have "last_n 2 (returned_levels (take 15 limit_trace)) = [0, 0]"
    by (simp add: two_workers_def)
  then show ?thesis
    by (simp add: limit_trace_def startup_trace_def first_cycle_trace_def last_n_def
        drawn_def assigned_def)
qed

text \<open>
  C5 (as stated) fails. With two collector environments and the sampler of the
  specification, whose weighted draws are independent of each other, both draws of the
  round of the first pass return level 0: \<open>collector_env.seed([0, 0])\<close> is called, and
  one level is active in the two environments, not two.
\<close>

theorem one_level_for_two_workers:
  "serial_pipeline_plr (toy None False) two_workers 1 0 toy_world0 =
     Some (Inr ((), the (final_world (the run_limit)), limit_trace)) \<and>
   collector_env_num two_workers = 2 \<and>
   drop 13 limit_trace =
     drawn None [0, 0] @ assigned [0, 0] @ [Ev (Call_hook ''after_run'') (Inr Ret_unit)] \<and>
   active (the (final_world (the run_limit))) = [0, 0] \<and>
   card (set (active (the (final_world (the run_limit))))) = 1"
proof -
  have run: "serial_pipeline_plr (toy None False) two_workers 1 0 toy_world0 =
      Some (Inr ((), the (final_world (the run_limit)), limit_trace))"
    using run_limit_returns by (simp add: run_limit_def)
  have tr: "drop 13 limit_trace =
     drawn None [0, 0] @ assigned [0, 0] @ [Ev (Call_hook ''after_run'') (Inr Ret_unit)]"
    by (simp add: limit_trace_def startup_trace_def first_cycle_trace_def drawn_def assigned_def)
  have act: "active (the (final_world (the run_limit))) = [0, 0]"
    by (simp add: run_limit_def toy_defs main_loop.simps final_world_def)
  from run tr act show ?thesis by (simp add: two_workers_def)
qed

section \<open>The draws that precede the first weighted draw\<close>

lemma level_of_sample: "level_of ev \<noteq> [] \<Longrightarrow> is_sample ev"
  by (cases ev rule: level_of.cases) simp_all

lemma before_weighted_all:
  "list_all (\<lambda>ev. \<not> is_weighted ev) tr \<Longrightarrow> before_weighted tr = tr"
  by (simp add: before_weighted_def list_all_iff)

lemma before_weighted_quiet:
  assumes "list_all (\<lambda>ev. is_sample ev \<longrightarrow> is_weighted ev) seg"
  shows "filter is_sample (before_weighted seg) = []"
    and "returned_levels (before_weighted seg) = []"
proof -
  have a: "\<not> is_sample ev" if "ev \<in> set (before_weighted seg)" for ev
    using that assms set_takeWhileD[of ev "\<lambda>ev. \<not> is_weighted ev" seg]
    by (auto simp: before_weighted_def list_all_iff)
  then show "filter is_sample (before_weighted seg) = []"
    by (auto simp: filter_empty_conv)
  from a level_of_sample show "returned_levels (before_weighted seg) = []"
    by (fastforce simp: returned_levels_def)
qed

lemma before_weighted_append:
  assumes "list_all (\<lambda>ev. is_sample ev \<longrightarrow> is_weighted ev) seg"
  shows "filter is_sample (before_weighted (tr @ seg)) = filter is_sample (before_weighted tr)"
    and "returned_levels (before_weighted (tr @ seg)) = returned_levels (before_weighted tr)"
proof -
  have "before_weighted (tr @ seg) = before_weighted tr \<or>
      before_weighted (tr @ seg) = before_weighted tr @ before_weighted seg"
  proof (cases "\<forall>ev\<in>set tr. \<not> is_weighted ev")
    case True
    then have 1: "before_weighted (tr @ seg) = tr @ before_weighted seg"
      by (simp add: before_weighted_def)
    from True have 2: "before_weighted tr = tr"
      by (simp add: before_weighted_def)
    show ?thesis unfolding 1 2 by simp
  next
    case False
    then show ?thesis by (auto simp: before_weighted_def)
  qed
  with before_weighted_quiet[OF assms]
  show "filter is_sample (before_weighted (tr @ seg)) = filter is_sample (before_weighted tr)"
    and "returned_levels (before_weighted (tr @ seg)) = returned_levels (before_weighted tr)"
    by (auto simp: returned_levels_def)
qed

lemma startup_draws:
  "post (startup C cfg (w, []))
     (\<lambda>ls st. list_all (\<lambda>ev. \<not> is_weighted ev) (snd st) \<and>
        filter is_sample (snd st) = drawn (Some ''sequential'') (returned_levels (snd st)) \<and>
        length (returned_levels (snd st)) = collector_env_num cfg)
     (\<lambda>e tr. list_all (\<lambda>ev. \<not> is_weighted ev) tr)"
  unfolding phase_defs Let_def
  by (intro post_rules)
     (simp_all add: assigned_def drawn_def is_weighted_def list_all_iff o_def
        filter_map returned_levels_def)

lemma cycle_draws:
  "post (cycle C cfg mti mes ls st)
     (\<lambda>a st'. ext (snd st) (snd st')
        (\<lambda>seg. list_all (\<lambda>ev. is_sample ev \<longrightarrow> is_weighted ev) seg))
     (\<lambda>e tr. ext (snd st) tr (\<lambda>seg. list_all (\<lambda>ev. is_sample ev \<longrightarrow> is_weighted ev) seg))"
  unfolding phase_defs
  by (intro post_rules)
     (simp_all add: assigned_def drawn_def is_weighted_def list_all_iff)

lemma pipeline_first_weighted:
  fixes C :: "('w, 'e, 'k, 'd, 's, 't) collaborators"
  assumes "serial_pipeline_plr C cfg mti mes w = Some res"
  shows "list_all (\<lambda>ev. \<not> is_weighted ev) (trace_of res) \<or>
     (filter is_sample (before_weighted (trace_of res)) =
        drawn (Some ''sequential'') (returned_levels (before_weighted (trace_of res))) \<and>
      length (returned_levels (before_weighted (trace_of res))) = collector_env_num cfg)"
proof (rule pipeline_trace_rule[OF assms,
      where I = "\<lambda>ls tr. filter is_sample (before_weighted tr) =
            drawn (Some ''sequential'') (returned_levels (before_weighted tr)) \<and>
          length (returned_levels (before_weighted tr)) = collector_env_num cfg"
        and F = "\<lambda>tr. filter is_sample (before_weighted tr) =
            drawn (Some ''sequential'') (returned_levels (before_weighted tr)) \<and>
          length (returned_levels (before_weighted tr)) = collector_env_num cfg"
        and R = "\<lambda>res. list_all (\<lambda>ev. \<not> is_weighted ev) (trace_of res) \<or>
          (filter is_sample (before_weighted (trace_of res)) =
             drawn (Some ''sequential'') (returned_levels (before_weighted (trace_of res))) \<and>
           length (returned_levels (before_weighted (trace_of res))) = collector_env_num cfg)"
        and Sq = "\<lambda>ls a seg. list_all (\<lambda>ev. is_sample ev \<longrightarrow> is_weighted ev) seg"
        and Se = "\<lambda>ls e seg. list_all (\<lambda>ev. is_sample ev \<longrightarrow> is_weighted ev) seg"])
  show "post (startup C cfg (w, []))
      (\<lambda>ls st. filter is_sample (before_weighted (snd st)) =
            drawn (Some ''sequential'') (returned_levels (before_weighted (snd st))) \<and>
          length (returned_levels (before_weighted (snd st))) = collector_env_num cfg)
      (\<lambda>e tr. list_all (\<lambda>ev. \<not> is_weighted ev) (trace_of (Inl (e, tr))) \<or>
          (filter is_sample (before_weighted (trace_of (Inl (e, tr)))) =
             drawn (Some ''sequential'')
               (returned_levels (before_weighted (trace_of (Inl (e, tr))))) \<and>
           length (returned_levels (before_weighted (trace_of (Inl (e, tr))))) =
             collector_env_num cfg))"
    by (rule post_mono[OF startup_draws[of C cfg w]])
       (simp_all add: before_weighted_all trace_of_def)
next
  fix ls :: 't and st :: "('w, 'e, 'k, 'd, 's, 't) pstate"
  show "post (cycle C cfg mti mes ls st)
      (\<lambda>a st'. ext (snd st) (snd st')
         (\<lambda>seg. list_all (\<lambda>ev. is_sample ev \<longrightarrow> is_weighted ev) seg))
      (\<lambda>e tr. ext (snd st) tr (\<lambda>seg. list_all (\<lambda>ev. is_sample ev \<longrightarrow> is_weighted ev) seg))"
    by (rule cycle_draws)
qed (simp_all add: trace_of_def before_weighted_append)

text \<open>
  C1 (as amended). In every run, at the moment the first weighted sample is drawn (the
  first call of \<open>level_sampler.sample()\<close> with no strategy argument), the sampler has been
  asked for a level exactly as many times as there are collector environments: these are
  the sequential draws of the startup round, and each of them returned. So at most
  \<open>collector_env_num\<close> of the 500 levels of the pool have been sampled at that moment.
\<close>

theorem first_weighted_draw:
  fixes C :: "('w, 'e, 'k, 'd, 's, 't) collaborators"
  assumes "serial_pipeline_plr C cfg max_train_iter max_env_step w = Some res"
    and "list_ex is_weighted (trace_of res)"
  shows "filter is_sample (before_weighted (trace_of res)) =
       drawn (Some ''sequential'') (returned_levels (before_weighted (trace_of res))) \<and>
     length (returned_levels (before_weighted (trace_of res))) = collector_env_num cfg \<and>
     card (set (generate_seeds 500 0) \<inter> set (returned_levels (before_weighted (trace_of res))))
       \<le> collector_env_num cfg"
proof -
  from pipeline_first_weighted[OF assms(1)] assms(2)
  have a: "filter is_sample (before_weighted (trace_of res)) =
       drawn (Some ''sequential'') (returned_levels (before_weighted (trace_of res)))"
    and b: "length (returned_levels (before_weighted (trace_of res))) = collector_env_num cfg"
    by (auto simp: list_all_iff list_ex_iff)
  have "card (set (generate_seeds 500 0) \<inter> set (returned_levels (before_weighted (trace_of res))))
      \<le> card (set (returned_levels (before_weighted (trace_of res))))"
    by (rule card_mono) simp_all
  also have "\<dots> \<le> length (returned_levels (before_weighted (trace_of res)))"
    by (rule card_length)
  finally show ?thesis using a b by simp
qed

theorem first_weighted_draw_witness:
  "list_ex is_weighted limit_trace \<and>
   filter is_sample (before_weighted limit_trace) =
     [Ev (Sample (Some ''sequential'')) (Inr (Ret_level 0)),
      Ev (Sample (Some ''sequential'')) (Inr (Ret_level 1))] \<and>
   length (returned_levels (before_weighted limit_trace)) = 2"
proof -
  have run: "serial_pipeline_plr (toy None False) two_workers 1 0 toy_world0 =
      Some (Inr ((), the (final_world (the run_limit)), limit_trace))"
    using run_limit_returns by (simp add: run_limit_def)
  have tr: "trace_of (Inr ((), the (final_world (the run_limit)), limit_trace) ::
      (toy_world, toy_error, unit, int list, int list, int list, unit) presult) = limit_trace"
    by (simp add: trace_of_def)
  have w: "list_ex is_weighted limit_trace"
    by (simp add: limit_trace_def startup_trace_def first_cycle_trace_def is_weighted_def)
  have lv: "returned_levels (before_weighted limit_trace) = [0, 1]"
    by (simp add: limit_trace_def startup_trace_def first_cycle_trace_def is_weighted_def
        before_weighted_def)
  from first_weighted_draw[OF run] w have
    "filter is_sample (before_weighted limit_trace) =
       drawn (Some ''sequential'') (returned_levels (before_weighted limit_trace))"
    "length (returned_levels (before_weighted limit_trace)) = collector_env_num two_workers"
    unfolding tr by simp_all
  with w lv show ?thesis
    by (simp add: two_workers_def drawn_def)
qed

text \<open>
  C1 (as stated) fails. With two collector environments the startup round draws the
  levels 0 and 1 sequentially, and the first pass of the loop then draws with no strategy
  argument: at that moment the levels 2 to 499 of the pool have not been sampled, and
  with the sampler of the specification the visit count of level 499 is still 0 when the
  run returns.
\<close>

theorem cold_start_not_covered:
  "serial_pipeline_plr (toy None False) two_workers 1 0 toy_world0 =
     Some (Inr ((), the (final_world (the run_limit)), limit_trace)) \<and>
   list_ex is_weighted limit_trace \<and>
   returned_levels (before_weighted limit_trace) = [0, 1] \<and>
   \<not> covered limit_trace \<and>
   visit_count (sampler (the (final_world (the run_limit)))) 499 = 0"
proof -
  have run: "serial_pipeline_plr (toy None False) two_workers 1 0 toy_world0 =
      Some (Inr ((), the (final_world (the run_limit)), limit_trace))"
    using run_limit_returns by (simp add: run_limit_def)
  have w: "list_ex is_weighted limit_trace"
    by (simp add: limit_trace_def startup_trace_def first_cycle_trace_def is_weighted_def)
  have lv: "returned_levels (before_weighted limit_trace) = [0, 1]"
    by (simp add: limit_trace_def startup_trace_def first_cycle_trace_def is_weighted_def
        before_weighted_def)
  have "(2::int) \<in> set (generate_seeds 500 0)"
    by (simp add: generate_seeds_def)
  then have nc: "\<not> covered limit_trace"
    unfolding covered_def lv by auto
  have vc: "visit_count (sampler (the (final_world (the run_limit)))) 499 = 0"
    by (simp add: run_limit_def toy_defs main_loop.simps final_world_def)
  from run w lv nc vc show ?thesis by simp
qed

section \<open>The limit of one training iteration\<close>

lemma never_stopsD: "never_stops C \<Longrightarrow> eval C ti es w = Inr (stop, w') \<Longrightarrow> \<not> stop"
  unfolding never_stops_def by blast

lemma contract_train:
  "train_iter_contract C \<Longrightarrow> train C d es w = Inr (u, w') \<Longrightarrow> 1 \<le> train_iter C w'"
proof -
  assume c: "train_iter_contract C" and t: "train C d es w = Inr (u, w')"
  from c have "0 \<le> train_iter C w" by (simp add: train_iter_contract_def)
  moreover from c t have "train_iter C w < train_iter C w'"
    by (simp add: train_iter_contract_def)
  ultimately show ?thesis by simp
qed

lemma contract_preprocess:
  "train_iter_contract C \<Longrightarrow> default_preprocess_learn C d b w = Inr (sd, w') \<Longrightarrow>
   train_iter C w \<le> train_iter C w'"
  unfolding train_iter_contract_def by blast

lemma contract_update:
  "train_iter_contract C \<Longrightarrow> update_with_rollouts C sd n w = Inr (u, w') \<Longrightarrow>
   train_iter C w \<le> train_iter C w'"
  unfolding train_iter_contract_def by simp

lemma contract_sample:
  "train_iter_contract C \<Longrightarrow> sample C strategy w = Inr (i, w') \<Longrightarrow>
   train_iter C w \<le> train_iter C w'"
  unfolding train_iter_contract_def by blast

lemma contract_env_seed:
  "train_iter_contract C \<Longrightarrow> env_seed C xs w = Inr (u, w') \<Longrightarrow>
   train_iter C w \<le> train_iter C w'"
  unfolding train_iter_contract_def by simp

lemma contract_env_reset:
  "train_iter_contract C \<Longrightarrow> env_reset C w = Inr (u, w') \<Longrightarrow>
   train_iter C w \<le> train_iter C w'"
  unfolding train_iter_contract_def by simp

lemma sample_round_train_iter:
  "train_iter_contract C \<Longrightarrow> sample_round C strategy n st = Inr (seeds, st') \<Longrightarrow>
   train_iter C (fst st) \<le> train_iter C (fst st')"
proof (induction n arbitrary: st seeds st')
  case 0
  then show ?case by simp
next
  case (Suc n)
  from Suc.prems(2) obtain i w1 seeds1 where
    s: "sample C strategy (fst st) = Inr (i, w1)" and
    r: "sample_round C strategy n (w1, snd st @ [Ev (Sample strategy) (Inr (Ret_level i))]) =
          Inr (seeds1, st')"
    by (auto simp: invoke_eq_Inr split: sum.splits prod.splits)
  from contract_sample[OF Suc.prems(1) s] Suc.IH[OF Suc.prems(1) r] show ?case by simp
qed

lemma startup_no_learn:
  "post (startup C cfg (w, []))
     (\<lambda>ls st. \<exists>seeds. ls = tensor C seeds \<and>
        snd st = startup_events (collector_env_num cfg) seeds)
     (\<lambda>e tr. filter is_commander_step tr = [] \<and> filter is_train tr = [])"
  unfolding phase_defs Let_def
  by (intro post_rules) (simp_all add: startup_events_def assigned_def drawn_def)

lemma cycle_limit_one:
  assumes c: "train_iter_contract C" and n: "never_stops C"
  shows "post (cycle C cfg 1 mes ls st)
     (\<lambda>a st'. fst a \<and> ext (snd st) (snd st') (\<lambda>seg.
         \<exists>seeds kw ti due ti2 es2 ti' d es sd.
            seg = cycle_events kw ti due ti2 es2 ti' ls d es (ignore_done cfg) sd
                    (collector_env_num cfg) seeds))
     (\<lambda>e tr. ext (snd st) tr (\<lambda>seg.
         length (filter is_commander_step seg) \<le> 1 \<and> length (filter is_train seg) \<le> 1))"
  unfolding phase_defs
  apply (intro post_rules)
                   apply (simp_all add: cycle_events_def assigned_def drawn_def)
  subgoal using never_stopsD[OF n] by blast
  subgoal
    apply (rule conjI)
     apply (rule disjI2)
     apply (drule contract_train[OF c])
     apply (drule contract_preprocess[OF c])
     apply (drule contract_update[OF c])
     apply (drule sample_round_train_iter[OF c])
     apply (drule contract_env_seed[OF c])
     apply (drule contract_env_reset[OF c])
     apply simp
    apply blast
    done
  subgoal
    apply (rule conjI)
     apply (rule disjI2)
     apply (drule contract_train[OF c])
     apply (drule contract_preprocess[OF c])
     apply (drule contract_update[OF c])
     apply (drule sample_round_train_iter[OF c])
     apply (drule contract_env_seed[OF c])
     apply (drule contract_env_reset[OF c])
     apply simp
    apply blast
    done
  done

lemma startup_events_no_learn:
  "filter is_train (startup_events n seeds) = []"
  "filter is_update (startup_events n seeds) = []"
  by (auto simp: startup_events_def drawn_def assigned_def)

lemma cycle_events_counts:
  "length (filter is_commander_step (cycle_events kw ti due ti2 es2 ti' ls d es ig sd n seeds)) = 1"
  "length (filter is_train (cycle_events kw ti due ti2 es2 ti' ls d es ig sd n seeds)) = 1"
  "length (filter is_update (cycle_events kw ti due ti2 es2 ti' ls d es ig sd n seeds)) = 1"
  by (auto simp: cycle_events_def drawn_def assigned_def)

text \<open>
  C3. With \<open>max_train_iter = 1\<close>, whatever \<open>max_env_step\<close> is, with a learner whose \<open>train\<close>
  increases \<open>train_iter\<close> (a counter that starts at 0 or above and that the sampler and
  the environments leave alone) and an evaluator that never signals stop, every run ends.
  If no call raises, the run is the startup, one pass of the loop (one \<open>commander.step\<close>,
  one \<open>collect\<close>, one \<open>learner.train\<close>, one \<open>update_with_rollouts\<close>, the next assignment
  of seeds), then the learner's \<open>after_run\<close> hook, and the pipeline returns. If a call
  raises, \<open>learner.train\<close> has been called once at most.
\<close>

theorem train_iter_limit:
  fixes C :: "('w, 'e, 'k, 'd, 's, 't) collaborators"
  assumes c: "train_iter_contract C" and n: "never_stops C"
  shows "\<exists>res. serial_pipeline_plr C cfg 1 max_env_step w = Some res \<and>
     (case res of
        Inl (e, tr) \<Rightarrow>
          length (filter is_commander_step tr) \<le> 1 \<and> length (filter is_train tr) \<le> 1
      | Inr (u, w', tr) \<Rightarrow>
          length (filter is_commander_step tr) = 1 \<and> length (filter is_train tr) = 1 \<and>
          length (filter is_update tr) = 1 \<and>
          (\<exists>ls kw ti due ti2 es2 ti' d es sd seeds.
             tr = startup_events (collector_env_num cfg) ls @
                  cycle_events kw ti due ti2 es2 ti' (tensor C ls) d es (ignore_done cfg) sd
                    (collector_env_num cfg) seeds @
                  [Ev (Call_hook ''after_run'') (Inr Ret_unit)]))"
proof (cases "startup C cfg (w, [])")
  case (Inl x)
  obtain e tr where x: "x = (e, tr)" by (cases x)
  from startup_no_learn[of C cfg w] Inl x
  have "filter is_commander_step tr = [] \<and> filter is_train tr = []" by simp
  with Inl x show ?thesis by (simp add: serial_pipeline_plr_def)
next
  case (Inr y)
  obtain ls st1 where y: "y = (ls, st1)" by (cases y)
  from startup_no_learn[of C cfg w] Inr y
  obtain seeds0 where ls: "ls = tensor C seeds0"
    and st1: "snd st1 = startup_events (collector_env_num cfg) seeds0" by auto
  show ?thesis
  proof (cases "cycle C cfg 1 max_env_step ls st1")
    case (Inl x)
    obtain e tr where x: "x = (e, tr)" by (cases x)
    from cycle_limit_one[OF c n, of cfg max_env_step ls st1] Inl x
    obtain seg where tr: "tr = snd st1 @ seg"
      and seg: "length (filter is_commander_step seg) \<le> 1" "length (filter is_train seg) \<le> 1"
      by (auto simp: ext_def)
    have "main_loop C cfg 1 max_env_step ls st1 = Some (Inl (e, tr))"
      by (subst main_loop.simps) (simp add: Inl x)
    with Inr y tr st1 seg show ?thesis
      by (simp add: serial_pipeline_plr_def startup_events_props startup_events_no_learn)
  next
    case Inr2: (Inr z)
    obtain brk ls' st2 where z: "z = ((brk, ls'), st2)" by (cases z) auto
    from cycle_limit_one[OF c n, of cfg max_env_step ls st1] Inr2 z
    obtain seeds kw ti due ti2 es2 ti' d es sd where brk: brk
      and st2: "snd st2 = snd st1 @ cycle_events kw ti due ti2 es2 ti' ls d es (ignore_done cfg) sd
          (collector_env_num cfg) seeds"
      by (auto simp: ext_def)
    have loop: "main_loop C cfg 1 max_env_step ls st1 = Some (Inr ((), st2))"
      by (subst main_loop.simps) (simp add: Inr2 z brk)
    have run: "serial_pipeline_plr C cfg 1 max_env_step w =
        Some (invoke (Call_hook ''after_run'') (\<lambda>_. Ret_unit) (call_hook C ''after_run'') st2)"
      by (simp add: serial_pipeline_plr_def Inr y loop)
    show ?thesis
    proof (cases "call_hook C ''after_run'' (fst st2)")
      case (Inl e)
      then have "invoke (Call_hook ''after_run'') (\<lambda>_. Ret_unit) (call_hook C ''after_run'') st2 =
          Inl (e, snd st2 @ [Ev (Call_hook ''after_run'') (Inl e)])"
        by (simp add: invoke_def)
      with run st1 st2 show ?thesis
        by (simp add: startup_events_props startup_events_no_learn cycle_events_counts)
    next
      case Inr3: (Inr v)
      obtain u w' where v: "v = (u, w')" by (cases v)
      define tr where "tr = snd st2 @ [Ev (Call_hook ''after_run'') (Inr Ret_unit)]"
      from Inr3 v
      have inv: "invoke (Call_hook ''after_run'') (\<lambda>_. Ret_unit) (call_hook C ''after_run'') st2 =
          Inr ((), w', tr)"
        by (simp add: invoke_def tr_def)
      have sh: "\<exists>ls kw ti due ti2 es2 ti' d es sd seeds.
          tr = startup_events (collector_env_num cfg) ls @
               cycle_events kw ti due ti2 es2 ti' (tensor C ls) d es (ignore_done cfg) sd
                 (collector_env_num cfg) seeds @
               [Ev (Call_hook ''after_run'') (Inr Ret_unit)]"
        unfolding tr_def st2 st1 ls append_assoc by blast
      have cnt: "length (filter is_commander_step tr) = 1" "length (filter is_train tr) = 1"
        "length (filter is_update tr) = 1"
        unfolding tr_def st2 st1
        by (simp_all add: startup_events_props startup_events_no_learn cycle_events_counts)
      from run inv sh cnt show ?thesis by simp
    qed
  qed
qed

theorem train_iter_limit_witness:
  "train_iter_contract (toy None False) \<and> never_stops (toy None False) \<and>
   map_option trace_of (serial_pipeline_plr (toy None False) two_workers 1 100 toy_world0) =
     Some limit_trace \<and>
   length (filter is_commander_step limit_trace) = 1 \<and>
   length (filter is_train limit_trace) = 1 \<and>
   length (filter is_update limit_trace) = 1"
proof -
  have c: "train_iter_contract (toy None False)"
    by (simp add: train_iter_contract_def toy_def toy_sample_def split: sum.splits)
  have n: "never_stops (toy None False)"
    by (simp add: never_stops_def toy_def)
  have tr: "map_option trace_of (serial_pipeline_plr (toy None False) two_workers 1 100 toy_world0) =
      Some limit_trace"
    by (simp add: toy_defs main_loop.simps trace_of_def)
  from train_iter_limit[OF c n, of two_workers 100 toy_world0] obtain res where
    run: "serial_pipeline_plr (toy None False) two_workers 1 100 toy_world0 = Some res"
    and props: "case res of
        Inl (e, tr) \<Rightarrow>
          length (filter is_commander_step tr) \<le> 1 \<and> length (filter is_train tr) \<le> 1
      | Inr (u, w', tr) \<Rightarrow>
          length (filter is_commander_step tr) = 1 \<and> length (filter is_train tr) = 1 \<and>
          length (filter is_update tr) = 1 \<and>
          (\<exists>ls kw ti due ti2 es2 ti' d es sd seeds.
             tr = startup_events (collector_env_num two_workers) ls @
                  cycle_events kw ti due ti2 es2 ti' (tensor (toy None False) ls) d es
                    (ignore_done two_workers) sd
                    (collector_env_num two_workers) seeds @
                  [Ev (Call_hook ''after_run'') (Inr Ret_unit)])"
    by blast
  have "\<exists>w'. serial_pipeline_plr (toy None False) two_workers 1 100 toy_world0 =
      Some (Inr ((), w', limit_trace))"
    by (simp add: toy_defs main_loop.simps)
  with run have "\<exists>w'. res = Inr ((), w', limit_trace)" by simp
  with props c n tr show ?thesis by auto
qed

end
